theory Spec2Isabelle
  imports Complex_Main "HOL-Library.Word"
begin

section \<open>ECMAScript strings\<close>

text \<open>
  A JavaScript string is a sequence of UTF-16 code units. The two built-ins the
  normaliser relies on for white space, \<open>String.prototype.trim\<close> and the
  regular-expression class \<open>\s\<close>, use the same set: WhiteSpace together with
  LineTerminator of the ECMAScript grammar.
\<close>

type_synonym codeunit = "16 word"
type_synonym jsstring = "codeunit list"

definition whiteSpaceUnits :: "codeunit list" where
  "whiteSpaceUnits =
    [0x0009, 0x000A, 0x000B, 0x000C, 0x000D, 0x0020, 0x00A0, 0x1680,
     0x2000, 0x2001, 0x2002, 0x2003, 0x2004, 0x2005, 0x2006, 0x2007,
     0x2008, 0x2009, 0x200A, 0x2028, 0x2029, 0x202F, 0x205F, 0x3000, 0xFEFF]"

definition isWhiteSpace :: "codeunit \<Rightarrow> bool" where
  "isWhiteSpace c = (c \<in> set whiteSpaceUnits)"

definition trim :: "jsstring \<Rightarrow> jsstring" where
  "trim s = rev (dropWhile isWhiteSpace (rev (dropWhile isWhiteSpace s)))"

definition startsWith :: "jsstring \<Rightarrow> jsstring \<Rightarrow> bool" where
  "startsWith a b = (take (length b) a = b)"

text \<open>\<open>a.includes(b)\<close>: \<open>b\<close> occurs in \<open>a\<close> at some position.\<close>

fun includes' :: "jsstring \<Rightarrow> jsstring \<Rightarrow> bool" where
  "includes' [] b = (b = [])"
| "includes' (c # cs) b = (startsWith (c # cs) b \<or> includes' cs b)"

text \<open>
  \<open>String.prototype.toLowerCase\<close> is the engine's Unicode case mapping. Its table
  is not part of the repository, so every function that calls it takes it as the
  parameter \<open>toLowerCase\<close>. \<open>toLowerCaseASCII\<close> is the mapping on strings of
  ASCII code units, where the built-in only moves \<open>A\<close>..\<open>Z\<close> to \<open>a\<close>..\<open>z\<close>;
  it instantiates the parameter in the concrete runs below.
\<close>

definition toLowerCaseASCII :: "jsstring \<Rightarrow> jsstring" where
  "toLowerCaseASCII s = map (\<lambda>c. if 0x41 \<le> c \<and> c \<le> 0x5A then c + 0x20 else c) s"

section \<open>Regular expressions of the normaliser\<close>

text \<open>
  The prefix pattern carries the flag \<open>i\<close>. Without the flag \<open>u\<close> a pattern
  character and an input code unit match when their canonical forms agree, the
  canonical form being the upper-case mapping, except that a code unit outside ASCII
  is never mapped into ASCII. The pattern holds ASCII letters, a space, ideographs and
  punctuation only, so on everything it can be compared with the canonical form moves
  \<open>a\<close>..\<open>z\<close> to \<open>A\<close>..\<open>Z\<close> and nothing else.
\<close>

definition canonicalize :: "codeunit \<Rightarrow> codeunit" where
  "canonicalize c = (if 0x61 \<le> c \<and> c \<le> 0x7A then c - 0x20 else c)"

text \<open>A literal alternative matched at the start of the input; the result is the rest.\<close>

fun matchLiteral :: "jsstring \<Rightarrow> jsstring \<Rightarrow> jsstring option" where
  "matchLiteral [] v = Some v"
| "matchLiteral (p # ps) [] = None"
| "matchLiteral (p # ps) (c # cs) =
     (if canonicalize p = canonicalize c then matchLiteral ps cs else None)"

text \<open>The class \<open>[:\<dots>\-]\<close> of the prefix pattern: colon, full-width colon (U+FF1A), hyphen.\<close>

definition separatorUnits :: "codeunit list" where
  "separatorUnits = [0x003A, 0xFF1A, 0x002D]"

definition isSeparator :: "codeunit \<Rightarrow> bool" where
  "isSeparator c = (c \<in> set separatorUnits)"

text \<open>
  The tail \<open>\s*[:\<dots>\-]\s*\<close> of the prefix pattern. Both stars are greedy, and
  since no separator is white space, giving back white space never helps: the tail
  matches exactly when the first code unit after the white-space run is a separator.
\<close>

definition matchSeparator :: "jsstring \<Rightarrow> jsstring option" where
  "matchSeparator r =
     (case dropWhile isWhiteSpace r of
        [] \<Rightarrow> None
      | c # cs \<Rightarrow> if isSeparator c then Some (dropWhile isWhiteSpace cs) else None)"

text \<open>The alternatives are tried from left to right; the first that lets the tail match wins.\<close>

fun matchAlternatives :: "jsstring list \<Rightarrow> jsstring \<Rightarrow> jsstring option" where
  "matchAlternatives [] v = None"
| "matchAlternatives (p # ps) v =
     (case matchLiteral p v of
        None \<Rightarrow> matchAlternatives ps v
      | Some r \<Rightarrow>
          (case matchSeparator r of
             None \<Rightarrow> matchAlternatives ps v
           | Some rest \<Rightarrow> Some rest))"

text \<open>
  \<open>value.replace(/^(p1|p2|\<dots>)\s*[:\<dots>\-]\s*/i, '')\<close>: the pattern is anchored
  and not global, so the one match at the start, if any, is cut off.
\<close>

definition replaceFailurePrefix :: "jsstring list \<Rightarrow> jsstring \<Rightarrow> jsstring" where
  "replaceFailurePrefix alternatives v =
     (case matchAlternatives alternatives v of None \<Rightarrow> v | Some rest \<Rightarrow> rest)"

text \<open>
  \<open>value.replace(/[\s\<dots>]/g, '')\<close>: every code unit of the class is deleted. The
  class is \<open>\s\<close> together with the listed punctuation.
\<close>

definition inClass :: "codeunit list \<Rightarrow> codeunit \<Rightarrow> bool" where
  "inClass punctuation c = (isWhiteSpace c \<or> c \<in> set punctuation)"

definition deleteClass :: "codeunit list \<Rightarrow> jsstring \<Rightarrow> jsstring" where
  "deleteClass punctuation v = filter (\<lambda>c. \<not> inClass punctuation c) v"

section \<open>\<open>src/utils/notify.ts\<close>: the normaliser\<close>

text \<open>
  The alternatives of the prefix pattern of \<open>simplifyMessage\<close>, in the order of the
  source: ten four-ideograph phrases, then \<open>operation failed\<close> and \<open>request failed\<close>.
\<close>

definition failurePrefixes_notify :: "jsstring list" where
  "failurePrefixes_notify =
    [[0x64CD, 0x4F5C, 0x5931, 0x8D25],
     [0x8ACB, 0x6C42, 0x5931, 0x6557],
     [0x8BF7, 0x6C42, 0x5931, 0x8D25],
     [0x63D0, 0x4EA4, 0x5931, 0x8D25],
     [0x4FDD, 0x5B58, 0x5931, 0x8D25],
     [0x5220, 0x9664, 0x5931, 0x8D25],
     [0x66F4, 0x65B0, 0x5931, 0x8D25],
     [0x521B, 0x5EFA, 0x5931, 0x8D25],
     [0x4E0A, 0x50B3, 0x5931, 0x6557],
     [0x4E0A, 0x4F20, 0x5931, 0x8D25],
     [0x006F, 0x0070, 0x0065, 0x0072, 0x0061, 0x0074, 0x0069, 0x006F,
      0x006E, 0x0020, 0x0066, 0x0061, 0x0069, 0x006C, 0x0065, 0x0064],
     [0x0072, 0x0065, 0x0071, 0x0075, 0x0065, 0x0073, 0x0074, 0x0020,
      0x0066, 0x0061, 0x0069, 0x006C, 0x0065, 0x0064]]"

text \<open>The punctuation of the deletion class of \<open>simplifyMessage\<close>, in the order of the source.\<close>

definition punctuation_notify :: "codeunit list" where
  "punctuation_notify =
    [0x0060, 0x007E, 0x0021, 0x0040, 0x0023, 0x0024, 0x0025, 0x005E, 0x0026, 0x002A,
     0x0028, 0x0029, 0x005F, 0x002B, 0x002D, 0x003D, 0x005B, 0x005D, 0x007B, 0x007D,
     0x003B, 0x0027, 0x003A, 0x0022, 0x005C, 0x007C, 0x002C, 0x002E, 0x003C, 0x003E,
     0x002F, 0x003F, 0xFF0C, 0x3002, 0xFF01, 0xFF1F, 0xFF1B, 0xFF1A, 0x3001, 0x201C,
     0x201D, 0x2018, 0x2019, 0xFF08, 0xFF09, 0x3010, 0x3011, 0x300A, 0x300B, 0x00B7,
     0x2026, 0x2014, 0x002D]"

definition simplifyMessage :: "(jsstring \<Rightarrow> jsstring) \<Rightarrow> jsstring \<Rightarrow> jsstring" where
  "simplifyMessage toLowerCase input =
     (let v = trim input in
      if v = [] then []
      else deleteClass punctuation_notify
             (toLowerCase (replaceFailurePrefix failurePrefixes_notify v)))"

section \<open>The notice store (\<open>stores/notice\<close>)\<close>

datatype NoticeType = Error | Success | Info

record NoticeItem =
  id' :: nat
  message :: jsstring
  type' :: NoticeType

text \<open>The store has its own copy of the normaliser, with its own two patterns.\<close>

definition failurePrefixes_notice :: "jsstring list" where
  "failurePrefixes_notice =
    [[0x64CD, 0x4F5C, 0x5931, 0x8D25],
     [0x8ACB, 0x6C42, 0x5931, 0x6557],
     [0x8BF7, 0x6C42, 0x5931, 0x8D25],
     [0x63D0, 0x4EA4, 0x5931, 0x8D25],
     [0x4FDD, 0x5B58, 0x5931, 0x8D25],
     [0x5220, 0x9664, 0x5931, 0x8D25],
     [0x66F4, 0x65B0, 0x5931, 0x8D25],
     [0x521B, 0x5EFA, 0x5931, 0x8D25],
     [0x4E0A, 0x50B3, 0x5931, 0x6557],
     [0x4E0A, 0x4F20, 0x5931, 0x8D25],
     [0x006F, 0x0070, 0x0065, 0x0072, 0x0061, 0x0074, 0x0069, 0x006F,
      0x006E, 0x0020, 0x0066, 0x0061, 0x0069, 0x006C, 0x0065, 0x0064],
     [0x0072, 0x0065, 0x0071, 0x0075, 0x0065, 0x0073, 0x0074, 0x0020,
      0x0066, 0x0061, 0x0069, 0x006C, 0x0065, 0x0064]]"

definition punctuation_notice :: "codeunit list" where
  "punctuation_notice =
    [0x0060, 0x007E, 0x0021, 0x0040, 0x0023, 0x0024, 0x0025, 0x005E, 0x0026, 0x002A,
     0x0028, 0x0029, 0x005F, 0x002B, 0x002D, 0x003D, 0x005B, 0x005D, 0x007B, 0x007D,
     0x003B, 0x0027, 0x003A, 0x0022, 0x005C, 0x007C, 0x002C, 0x002E, 0x003C, 0x003E,
     0x002F, 0x003F, 0xFF0C, 0x3002, 0xFF01, 0xFF1F, 0xFF1B, 0xFF1A, 0x3001, 0x201C,
     0x201D, 0x2018, 0x2019, 0xFF08, 0xFF09, 0x3010, 0x3011, 0x300A, 0x300B, 0x00B7,
     0x2026, 0x2014, 0x002D]"

text \<open>
  \<open>String(input || '')\<close> is \<open>input\<close> itself for every string, the empty one
  included, so the first line of the function is \<open>input.trim()\<close>.
\<close>

definition simplifyNoticeMessage :: "(jsstring \<Rightarrow> jsstring) \<Rightarrow> jsstring \<Rightarrow> jsstring" where
  "simplifyNoticeMessage toLowerCase input =
     (let v = trim input in
      if v = [] then []
      else deleteClass punctuation_notice
             (toLowerCase (replaceFailurePrefix failurePrefixes_notice v)))"

text \<open>
  The state of the store: the three variables of the setup function, and the part of the
  browser they talk to. \<open>window.setTimeout\<close> hands out a fresh handle and puts the
  callback on the list of active timers; here a timer is its due time and the id its
  callback \<open>() => remove(id)\<close> closes over. \<open>window.clearTimeout\<close> takes it off.
  \<open>sequence\<close> counts the notices shown; it is a \<open>nat\<close>, the JavaScript number
  being exact far beyond any count a session reaches. Times and durations are whole
  milliseconds.
\<close>

record store =
  items :: "NoticeItem list"
  timerMap :: "nat \<rightharpoonup> nat"
  sequence :: nat
  activeTimers :: "nat \<rightharpoonup> int \<times> nat"
  nextHandle :: nat

definition initialStore :: store where
  "initialStore =
     \<lparr>items = [], timerMap = Map.empty, sequence = 0,
      activeTimers = Map.empty, nextHandle = 1\<rparr>"

definition clearTimeout :: "nat \<Rightarrow> store \<Rightarrow> store" where
  "clearTimeout h st = st\<lparr>activeTimers := (activeTimers st)(h := None)\<rparr>"

definition setTimeout :: "nat \<Rightarrow> int \<Rightarrow> int \<Rightarrow> store \<Rightarrow> nat \<times> store" where
  "setTimeout i duration now st =
     (nextHandle st,
      st\<lparr>activeTimers := (activeTimers st)(nextHandle st \<mapsto> (now + duration, i)),
         nextHandle := Suc (nextHandle st)\<rparr>)"

definition remove :: "nat \<Rightarrow> store \<Rightarrow> store" where
  "remove i st =
     (let st1 = (case timerMap st i of
                   None \<Rightarrow> st
                 | Some timeoutId \<Rightarrow>
                     (clearTimeout timeoutId st)\<lparr>timerMap := (timerMap st)(i := None)\<rparr>)
      in st1\<lparr>items := filter (\<lambda>item. id' item \<noteq> i) (items st1)\<rparr>)"

definition hasSimilarVisibleNotice ::
  "(jsstring \<Rightarrow> jsstring) \<Rightarrow> NoticeType \<Rightarrow> jsstring \<Rightarrow> store \<Rightarrow> bool" where
  "hasSimilarVisibleNotice toLowerCase kind msg st =
     (let current = simplifyNoticeMessage toLowerCase msg in
      if current = [] then False
      else list_ex (\<lambda>item.
             if type' item \<noteq> kind then False
             else let existing = simplifyNoticeMessage toLowerCase (message item) in
                  if existing = [] then False
                  else existing = current \<or> includes' existing current
                       \<or> includes' current existing)
           (items st))"

text \<open>
  The last step of \<open>show\<close>: when more than five items are listed, the items before
  the last five are removed, one \<open>remove(item.id)\<close> after the other.
\<close>

definition removeOverflow :: "store \<Rightarrow> store" where
  "removeOverflow st =
     (if length (items st) > 5
      then fold (\<lambda>item. remove (id' item)) (take (length (items st) - 5) (items st)) st
      else st)"

text \<open>
  \<open>show(msg, kind, duration)\<close> called at time \<open>now\<close>. The result is the returned id
  (\<open>None\<close> for \<open>undefined\<close>) and the new state.
\<close>

definition show' ::
  "(jsstring \<Rightarrow> jsstring) \<Rightarrow> jsstring \<Rightarrow> NoticeType \<Rightarrow> int \<Rightarrow> int \<Rightarrow> store \<Rightarrow> nat option \<times> store" where
  "show' toLowerCase msg kind duration now st =
     (let trimmed = trim msg in
      if trimmed = [] then (None, st)
      else if hasSimilarVisibleNotice toLowerCase kind trimmed st then (None, st)
      else
        let i = Suc (sequence st);
            st1 = st\<lparr>sequence := i,
                     items := items st @ [\<lparr>id' = i, message = trimmed, type' = kind\<rparr>]\<rparr>;
            st2 = (if duration > 0
                   then (case setTimeout i duration now st1 of
                           (timeoutId, w) \<Rightarrow> w\<lparr>timerMap := (timerMap w)(i \<mapsto> timeoutId)\<rparr>)
                   else st1)
        in (Some i, removeOverflow st2))"

definition clear :: "store \<Rightarrow> store" where
  "clear st = (case items st of [] \<Rightarrow> st | first # _ \<Rightarrow> remove (id' first) st)"

definition clearAll :: "store \<Rightarrow> store" where
  "clearAll st =
     (fold (\<lambda>item w. case timerMap w (id' item) of
                        None \<Rightarrow> w
                      | Some timeoutId \<Rightarrow> clearTimeout timeoutId w)
           (items st) st)
     \<lparr>timerMap := Map.empty, items := []\<rparr>"

text \<open>
  The browser runs the callback of an active timer once, no earlier than its due time:
  the timer leaves the list and \<open>remove(id)\<close> runs.
\<close>

definition fireTimer :: "nat \<Rightarrow> int \<Rightarrow> store \<Rightarrow> store" where
  "fireTimer h now st =
     (case activeTimers st h of
        None \<Rightarrow> st
      | Some (due, i) \<Rightarrow> if now < due then st else remove i (clearTimeout h st))"

text \<open>Ids are handed out once each, by counting.\<close>

definition idsFresh :: "store \<Rightarrow> bool" where
  "idsFresh st =
     (distinct (map id' (items st)) \<and> list_all (\<lambda>item. id' item \<le> sequence st) (items st))"

section \<open>\<open>src/utils/notify.ts\<close>: the window of repeated messages\<close>

record dedupe =
  lastMessage :: jsstring
  lastNormalized :: jsstring
  lastType :: "NoticeType option"
  lastAt :: int

text \<open>The module's initial values; \<open>lastType = ''\<close> is \<open>None\<close>.\<close>

definition initialDedupe :: dedupe where
  "initialDedupe = \<lparr>lastMessage = [], lastNormalized = [], lastType = None, lastAt = 0\<rparr>"

definition dedupeWindowMs :: int where
  "dedupeWindowMs = 1500"

text \<open>\<open>shouldSkip(type, content)\<close> with \<open>Date.now()\<close> returning \<open>now\<close>.\<close>

definition shouldSkip ::
  "(jsstring \<Rightarrow> jsstring) \<Rightarrow> NoticeType \<Rightarrow> jsstring \<Rightarrow> int \<Rightarrow> dedupe \<Rightarrow> bool \<times> dedupe" where
  "shouldSkip toLowerCase ty content now d =
     (let normalized = trim content in
      if normalized = [] then (False, d)
      else
        let normalizedCore = simplifyMessage toLowerCase normalized;
            withinWindow = (now - lastAt d \<le> dedupeWindowMs);
            sameType = (lastType d = Some ty);
            duplicatedExact = (sameType \<and> lastMessage d = normalized \<and> withinWindow);
            duplicatedNormalized =
              (sameType \<and> normalizedCore \<noteq> [] \<and> lastNormalized d = normalizedCore
               \<and> withinWindow);
            duplicatedSimilar =
              (sameType \<and> normalizedCore \<noteq> [] \<and> lastNormalized d \<noteq> [] \<and> withinWindow
               \<and> (includes' normalizedCore (lastNormalized d)
                    \<or> includes' (lastNormalized d) normalizedCore));
            duplicated = (duplicatedExact \<or> duplicatedNormalized \<or> duplicatedSimilar)
        in (duplicated,
            \<lparr>lastMessage = normalized, lastNormalized = normalizedCore,
             lastType = Some ty, lastAt = now\<rparr>))"

text \<open>
  \<open>pushNotice(message, type, fallbackKey)\<close>. The translation function \<open>t\<close> of the
  i18n module is a parameter; \<open>message\<close> is \<open>None\<close> when the caller passed
  \<open>undefined\<close>. \<open>show\<close> is called with two arguments, so with its default
  duration. The result is the new window state, the new store, and the arguments of
  the call of \<open>store.show\<close> that was made, if one was made. The body sits in a
  \<open>try\<close> with an empty \<open>catch\<close>; none of the calls modelled here throws.
\<close>

definition defaultDuration :: int where
  "defaultDuration = 6000"

definition pushNotice ::
  "(jsstring \<Rightarrow> jsstring) \<Rightarrow> (string \<Rightarrow> jsstring) \<Rightarrow> jsstring option \<Rightarrow> NoticeType \<Rightarrow> string
     \<Rightarrow> int \<Rightarrow> dedupe \<times> store \<Rightarrow> dedupe \<times> store \<times> (jsstring \<times> NoticeType) option" where
  "pushNotice toLowerCase t msg ty fallbackKey now ds =
     (let fallback = t fallbackKey;
          content = (case msg of
                       None \<Rightarrow> fallback
                     | Some m \<Rightarrow> if m \<noteq> [] \<and> trim m \<noteq> [] then m else fallback)
      in case shouldSkip toLowerCase ty content now (fst ds) of
           (True, d) \<Rightarrow> (d, snd ds, None)
         | (False, d) \<Rightarrow>
             (d, snd (show' toLowerCase content ty defaultDuration now (snd ds)),
              Some (content, ty)))"

definition notifyError ::
  "(jsstring \<Rightarrow> jsstring) \<Rightarrow> (string \<Rightarrow> jsstring) \<Rightarrow> jsstring option \<Rightarrow> int
     \<Rightarrow> dedupe \<times> store \<Rightarrow> dedupe \<times> store \<times> (jsstring \<times> NoticeType) option" where
  "notifyError toLowerCase t msg now ds =
     pushNotice toLowerCase t msg Error ''common.api.requestFailed'' now ds"

definition notifySuccess ::
  "(jsstring \<Rightarrow> jsstring) \<Rightarrow> (string \<Rightarrow> jsstring) \<Rightarrow> jsstring option \<Rightarrow> int
     \<Rightarrow> dedupe \<times> store \<Rightarrow> dedupe \<times> store \<times> (jsstring \<times> NoticeType) option" where
  "notifySuccess toLowerCase t msg now ds =
     pushNotice toLowerCase t msg Success ''admin.common.operationSuccess'' now ds"

definition notifyInfo ::
  "(jsstring \<Rightarrow> jsstring) \<Rightarrow> (string \<Rightarrow> jsstring) \<Rightarrow> jsstring option \<Rightarrow> int
     \<Rightarrow> dedupe \<times> store \<Rightarrow> dedupe \<times> store \<times> (jsstring \<times> NoticeType) option" where
  "notifyInfo toLowerCase t msg now ds =
     pushNotice toLowerCase t msg Info ''admin.common.notice'' now ds"

section \<open>Pagination in the views\<close>

text \<open>
  A JavaScript number that is not \<open>NaN\<close> or infinite is a rational. The operations used
  by the views (\<open>Math.floor\<close>, \<open>Math.max\<close>, \<open>Math.min\<close>, comparison) are exact on
  doubles, so no rounding has to be modelled. The two zeros are one value here: no
  operation below tells them apart.
\<close>

datatype jsnum = NaN | NegInfinity | Finite rat | PosInfinity

fun js_lt :: "jsnum \<Rightarrow> jsnum \<Rightarrow> bool" where
  "js_lt NaN _ = False"
| "js_lt _ NaN = False"
| "js_lt NegInfinity NegInfinity = False"
| "js_lt NegInfinity _ = True"
| "js_lt (Finite x) (Finite y) = (x < y)"
| "js_lt (Finite x) PosInfinity = True"
| "js_lt (Finite x) NegInfinity = False"
| "js_lt PosInfinity _ = False"

definition js_gt :: "jsnum \<Rightarrow> jsnum \<Rightarrow> bool" where
  "js_gt a b = js_lt b a"

definition strictEquals :: "jsnum \<Rightarrow> jsnum \<Rightarrow> bool" where
  "strictEquals a b = (a \<noteq> NaN \<and> a = b)"

definition isNaN :: "jsnum \<Rightarrow> bool" where
  "isNaN a = (a = NaN)"

definition Math_floor :: "jsnum \<Rightarrow> jsnum" where
  "Math_floor a = (case a of Finite x \<Rightarrow> Finite (of_int \<lfloor>x\<rfloor>) | _ \<Rightarrow> a)"

definition Math_max :: "jsnum \<Rightarrow> jsnum \<Rightarrow> jsnum" where
  "Math_max a b = (if a = NaN \<or> b = NaN then NaN else if js_lt a b then b else a)"

definition Math_min :: "jsnum \<Rightarrow> jsnum \<Rightarrow> jsnum" where
  "Math_min a b = (if a = NaN \<or> b = NaN then NaN else if js_lt b a then b else a)"

record pagination =
  page :: jsnum
  page_size :: jsnum
  total :: jsnum
  total_page :: jsnum

text \<open>
  \<open>Coupons.vue\<close>. The result of a handler is the page it passes to \<open>fetchCoupons\<close>,
  or \<open>None\<close> when it returns without fetching. \<open>Number(...)\<close>, the conversion of
  a string to a number, is the parameter \<open>Number'\<close>.
\<close>

definition changePage_Coupons :: "pagination \<Rightarrow> jsnum \<Rightarrow> jsnum option" where
  "changePage_Coupons pg p =
     (if js_lt p (Finite 1) \<or> js_gt p (total_page pg) then None else Some p)"

definition jumpToPage_Coupons ::
  "(jsstring \<Rightarrow> jsnum) \<Rightarrow> pagination \<Rightarrow> jsstring \<Rightarrow> jsnum option" where
  "jumpToPage_Coupons Number' pg jumpPage =
     (if jumpPage = [] then None
      else let raw = Number' jumpPage in
        if isNaN raw then None
        else let target = Math_min (Math_max (Math_floor raw) (Finite 1)) (total_page pg) in
          if strictEquals target (page pg) then None
          else changePage_Coupons pg target)"

text \<open>\<open>UserLoginLogs.vue\<close>. The result is the page passed to \<open>fetchLogs\<close>.\<close>

definition changePage_UserLoginLogs :: "pagination \<Rightarrow> jsnum \<Rightarrow> jsnum option" where
  "changePage_UserLoginLogs pg p =
     (if js_lt p (Finite 1) \<or> js_gt p (total_page pg) then None else Some p)"

definition jumpToPage_UserLoginLogs ::
  "(jsstring \<Rightarrow> jsnum) \<Rightarrow> pagination \<Rightarrow> jsstring \<Rightarrow> jsnum option" where
  "jumpToPage_UserLoginLogs Number' pg jumpPage =
     (if jumpPage = [] then None
      else let raw = Number' jumpPage in
        if isNaN raw then None
        else let target = Math_min (Math_max (Math_floor raw) (Finite 1)) (total_page pg) in
          if strictEquals target (page pg) then None
          else changePage_UserLoginLogs pg target)"

section \<open>Definitions that follow the specification\<close>

text \<open>
  The normaliser as the specification words it: trim; if something is left, cut off one
  leading failure phrase that is followed by a colon or dash separator (letter case of
  the phrase ignored, white space around the separator going with it); lower-case;
  delete every white-space and every listed punctuation code unit.
\<close>

definition hasFailureHead :: "jsstring \<Rightarrow> jsstring \<Rightarrow> bool" where
  "hasFailureHead p v =
     (length p \<le> length v
      \<and> map canonicalize (take (length p) v) = map canonicalize p
      \<and> (case dropWhile isWhiteSpace (drop (length p) v) of
            [] \<Rightarrow> False
          | c # _ \<Rightarrow> isSeparator c))"

definition removeFailurePrefix_spec :: "jsstring list \<Rightarrow> jsstring \<Rightarrow> jsstring" where
  "removeFailurePrefix_spec phrases v =
     (case find (\<lambda>p. hasFailureHead p v) phrases of
        None \<Rightarrow> v
      | Some p \<Rightarrow>
          dropWhile isWhiteSpace (tl (dropWhile isWhiteSpace (drop (length p) v))))"

text \<open>The code units the last step deletes: white space and the listed punctuation.\<close>

definition removable :: "codeunit \<Rightarrow> bool" where
  "removable c = (isWhiteSpace c \<or> c \<in> set punctuation_notify)"

definition simplifyMessage_spec :: "(jsstring \<Rightarrow> jsstring) \<Rightarrow> jsstring \<Rightarrow> jsstring" where
  "simplifyMessage_spec toLowerCase s =
     (if trim s = [] then []
      else filter (\<lambda>c. \<not> removable c)
             (toLowerCase (removeFailurePrefix_spec failurePrefixes_notify (trim s))))"

text \<open>
  Jumping to a page as the specification words it, for a page state of finite numbers:
  nothing happens on empty or \<open>NaN\<close> input; otherwise the floor of the number is
  clamped into the range from 1 to the number of pages; nothing happens when that is the
  current page, or when \<open>changePage\<close> rejects it for lying below 1 or above the number
  of pages.
\<close>

definition clamp_spec :: "rat \<Rightarrow> rat \<Rightarrow> rat \<Rightarrow> rat" where
  "clamp_spec lo hi x = (if x < lo then lo else if hi < x then hi else x)"

definition changePage_spec :: "rat \<Rightarrow> rat \<Rightarrow> rat option" where
  "changePage_spec T p = (if p < 1 \<or> T < p then None else Some p)"

definition jumpToPage_spec :: "(jsstring \<Rightarrow> jsnum) \<Rightarrow> rat \<Rightarrow> rat \<Rightarrow> jsstring \<Rightarrow> rat option" where
  "jumpToPage_spec Number' P T input =
     (if input = [] then None
      else case Number' input of
             NaN \<Rightarrow> None
           | NegInfinity \<Rightarrow> (if 1 = P then None else changePage_spec T 1)
           | PosInfinity \<Rightarrow> (if T = P then None else changePage_spec T T)
           | Finite q \<Rightarrow>
               (let target = clamp_spec 1 T (of_int \<lfloor>q\<rfloor>) in
                if target = P then None else changePage_spec T target))"

text \<open>
  The store's test as the specification words it: some visible item has the kind, both
  normalised texts are non-empty, and they are equal or one includes the other.
\<close>

definition similarVisible_spec ::
  "(jsstring \<Rightarrow> jsstring) \<Rightarrow> NoticeType \<Rightarrow> jsstring \<Rightarrow> store \<Rightarrow> bool" where
  "similarVisible_spec toLowerCase kind msg st =
     list_ex (\<lambda>item.
        type' item = kind
        \<and> simplifyNoticeMessage toLowerCase (message item) \<noteq> []
        \<and> simplifyNoticeMessage toLowerCase msg \<noteq> []
        \<and> (simplifyNoticeMessage toLowerCase (message item) = simplifyNoticeMessage toLowerCase msg
           \<or> includes' (simplifyNoticeMessage toLowerCase (message item))
                (simplifyNoticeMessage toLowerCase msg)
           \<or> includes' (simplifyNoticeMessage toLowerCase msg)
                (simplifyNoticeMessage toLowerCase (message item))))
       (items st)"

text \<open>
  A series of calls of \<open>shouldSkip\<close> with one type, each with its message and the
  time at which it is made; the results in order.
\<close>

fun shouldSkipAll ::
  "(jsstring \<Rightarrow> jsstring) \<Rightarrow> NoticeType \<Rightarrow> (jsstring \<times> int) list \<Rightarrow> dedupe \<Rightarrow> bool list" where
  "shouldSkipAll toLowerCase ty [] d = []"
| "shouldSkipAll toLowerCase ty ((m, now) # calls) d =
     fst (shouldSkip toLowerCase ty m now d)
       # shouldSkipAll toLowerCase ty calls (snd (shouldSkip toLowerCase ty m now d))"

text \<open>Each call is at most the window after the one before it.\<close>

fun gapsWithinWindow :: "int \<Rightarrow> int list \<Rightarrow> bool" where
  "gapsWithinWindow t0 [] = True"
| "gapsWithinWindow t0 (t1 # ts) = (t1 - t0 \<le> dedupeWindowMs \<and> gapsWithinWindow t1 ts)"

text \<open>
  Timer handles are handed out by counting as well: every handle the store remembers is
  older than the next one.
\<close>

definition handlesFresh :: "store \<Rightarrow> bool" where
  "handlesFresh st = (\<forall>i h. timerMap st i = Some h \<longrightarrow> h < nextHandle st)"

section \<open>Concrete runs\<close>

text \<open>
  \<open>t\<close> of vue-i18n answers a key that has no translation with the key itself.
\<close>

definition untranslated :: "string \<Rightarrow> jsstring" where
  "untranslated key = map of_char key"

text \<open>The message \<open>Saved\<close>.\<close>

definition savedText :: jsstring where
  "savedText = [0x53, 0x61, 0x76, 0x65, 0x64]"

text \<open>
  \<open>notifyError('Saved')\<close> at time 1000000 in a fresh session: the window state, the
  store, and the call of \<open>store.show\<close> it made.
\<close>

definition afterFirstPush :: "dedupe \<times> store \<times> (jsstring \<times> NoticeType) option" where
  "afterFirstPush =
     notifyError toLowerCaseASCII untranslated (Some savedText) 1000000
       (initialDedupe, initialStore)"

text \<open>The message \<open>Saved\<close> with a leading space and a trailing line feed.\<close>

definition savedTextPadded :: jsstring where
  "savedTextPadded = [0x20, 0x53, 0x61, 0x76, 0x65, 0x64, 0x0A]"

text \<open>The message \<open>Not saved\<close>.\<close>

definition notSavedText :: jsstring where
  "notSavedText = [0x4E, 0x6F, 0x74, 0x20, 0x73, 0x61, 0x76, 0x65, 0x64]"

text \<open>
  A store holding five notices \<open>A\<close> to \<open>E\<close>, each with its timer running: the state
  after five calls of \<open>show\<close> in a fresh session, at times 1000 to 1004.
\<close>

definition fullStore :: store where
  "fullStore =
     \<lparr>items = [\<lparr>id' = 1, message = [0x41], type' = Error\<rparr>,
               \<lparr>id' = 2, message = [0x42], type' = Error\<rparr>,
               \<lparr>id' = 3, message = [0x43], type' = Error\<rparr>,
               \<lparr>id' = 4, message = [0x44], type' = Error\<rparr>,
               \<lparr>id' = 5, message = [0x45], type' = Error\<rparr>],
      timerMap = [1 \<mapsto> 1, 2 \<mapsto> 2, 3 \<mapsto> 3, 4 \<mapsto> 4, 5 \<mapsto> 5],
      sequence = 5,
      activeTimers = [1 \<mapsto> (7000, 1), 2 \<mapsto> (7001, 2), 3 \<mapsto> (7002, 3),
                      4 \<mapsto> (7003, 4), 5 \<mapsto> (7004, 5)],
      nextHandle = 6\<rparr>"

text \<open>The store once the timer of that notice has run, at its due time 1006000.\<close>

definition afterTimer :: store where
  "afterTimer = fireTimer 1 1006000 (fst (snd afterFirstPush))"

text \<open>
  \<open>Number(...)\<close> on the strings of the runs below: a string of ASCII decimal digits
  is the number it denotes, and the letter \<open>x\<close> is \<open>NaN\<close>.
\<close>

definition NumberOfDigits :: "jsstring \<Rightarrow> jsnum" where
  "NumberOfDigits s =
     (if s \<noteq> [] \<and> list_all (\<lambda>c. 0x30 \<le> c \<and> c \<le> 0x39) s
      then Finite (of_nat (fold (\<lambda>c n. 10 * n + (unat c - 48)) s 0))
      else NaN)"

text \<open>Page 2 of 5, 95 entries.\<close>

definition pageTwoOfFive :: pagination where
  "pageTwoOfFive =
     \<lparr>page = Finite 2, page_size = Finite 20, total = Finite 95, total_page = Finite 5\<rparr>"

text \<open>
  The message \<open> Operation FAILED\<close>, space, full-width colon, ideographic space,
  \<open>No, disk!\<close>.
\<close>

definition failedDiskText :: jsstring where
  "failedDiskText =
     [0x20, 0x4F, 0x70, 0x65, 0x72, 0x61, 0x74, 0x69, 0x6F, 0x6E, 0x20, 0x46, 0x41, 0x49,
      0x4C, 0x45, 0x44, 0x20, 0xFF1A, 0x3000, 0x4E, 0x6F, 0x2C, 0x20, 0x64, 0x69, 0x73,
      0x6B, 0x21]"

text \<open>The message \<open>request failed: \<close> followed by three dots.\<close>

definition failedDotsText :: jsstring where
  "failedDotsText =
     [0x72, 0x65, 0x71, 0x75, 0x65, 0x73, 0x74, 0x20, 0x66, 0x61, 0x69, 0x6C, 0x65, 0x64,
      0x3A, 0x20, 0x2E, 0x2E, 0x2E]"

section \<open>What starts the handlers, and what they ask of the outside\<close>



text \<open>How an awaited promise ends.\<close>

datatype outcome = Resolved | Rejected






subsection \<open>\<open>layouts/AdminLayout.vue\<close>\<close>

text \<open>
  \<open>onMounted\<close> reads the saved theme and locale and applies them; \<open>toggleTheme\<close> and
  \<open>applyLocale\<close> write \<open>localStorage\<close>; \<open>handleLogout\<close> calls \<open>authStore.logout()\<close>
  and sets \<open>window.location.href\<close>.
\<close>

datatype layout_entry = LY_onMounted | LY_applyLocale | LY_toggleTheme | LY_handleLogout



subsection \<open>\<open>views/admin/Orders.vue\<close>, the orders view (l.1--967)\<close>







text \<open>
  The arguments of the entries are what the handler reads and how its awaited calls end:
  \<open>O_onMounted\<close> and \<open>O_watch_order_id\<close> carry \<open>Number(route.query.order_id)\<close>;
  \<open>O_updateStatus\<close> the order, \<open>statusEdits[order.id]\<close> (empty when missing) and the
  end of \<open>updateOrderStatus\<close>; \<open>O_markCompleted\<close> the order and the end of the call;
  \<open>O_submitFulfillment\<close> whether \<open>selectedOrder\<close> is set, \<open>hasFulfillmentSubmitData()\<close>,
  the end of \<open>createFulfillment\<close>, whether \<open>fulfillmentParentId\<close> is set, and whether
  \<open>selectedOrder\<close> is still set when the call has ended (reading \<open>selectedOrder.value.id\<close>
  throws otherwise, and the handler's \<open>catch\<close> takes over). \<open>openFulfillment\<close> is bound
  twice: in a row of the table (\<open>O_openFulfillment\<close>) and, for a child order, in the
  detail dialog (\<open>O_openChildFulfillment\<close>).
\<close>

datatype orders_entry =
    O_onMounted jsnum
  | O_watch_order_id jsnum
  | O_watch_user_id
  | O_handleSearch
  | O_refresh
  | O_changePage jsnum
  | O_jumpToPage
  | O_updateStatus "string option" string outcome
  | O_markCompleted "string option" outcome
  | O_openDetail
  | O_openFulfillment
  | O_openChildFulfillment
  | O_closeDetail
  | O_closeFulfillment
  | O_addDeliveryEntry
  | O_removeDeliveryEntry
  | O_resetFulfillmentForm
  | O_submitFulfillment bool bool outcome bool bool



subsection \<open>\<open>views/admin/Orders.vue\<close>, the promotions view (l.968--1396)\<close>




text \<open>
  \<open>P_handleSubmit\<close> carries whether \<open>form.scope_ref_id\<close> is set, whether
  \<open>isEditing && editingId\<close> holds, and the end of the call; \<open>P_handleDelete\<close> the
  answer of the confirm dialog and the end of \<open>deletePromotion\<close>.
\<close>

datatype promotions_entry =
    P_onMounted
  | P_watch_id
  | P_watch_promotion_id
  | P_handleSearch
  | P_refresh
  | P_changePage jsnum
  | P_jumpToPage
  | P_openCreateModal
  | P_openEditModal
  | P_closeModal
  | P_handleSubmit bool bool outcome
  | P_handleDelete bool outcome



subsection \<open>\<open>views/admin/Coupons.vue\<close>\<close>


text \<open>
  \<open>C_handleSubmit\<close> carries whether \<open>parseScopeIDs(form.scope_ref_ids)\<close> is non-empty,
  whether \<open>isEditing && editingId\<close> holds, and the end of the call; \<open>C_handleDelete\<close>
  the answer of the confirm dialog and the end of \<open>deleteCoupon\<close>.
\<close>

datatype coupons_entry =
    C_onMounted
  | C_watch_id
  | C_watch_coupon_id
  | C_watch_code
  | C_handleSearch
  | C_refresh
  | C_changePage jsnum
  | C_jumpToPage
  | C_openCreateModal
  | C_openEditModal
  | C_closeModal
  | C_handleSubmit bool bool outcome
  | C_handleDelete bool outcome



subsection \<open>\<open>views/admin/Payments.vue\<close>\<close>









subsection \<open>\<open>views/admin/UserLoginLogs.vue\<close>, the login log view (l.1--263)\<close>





subsection \<open>\<open>views/admin/UserLoginLogs.vue\<close>, the users view (l.264--686)\<close>




text \<open>
  \<open>U_batchUpdateStatus\<close> carries whether a user is selected, the answer of the confirm
  dialog and the end of \<open>batchUpdateUserStatus\<close>; \<open>U_handleSubmit\<close> whether
  \<open>editingId\<close> is set and the end of \<open>updateUser\<close>.
\<close>

datatype users_entry =
    U_onMounted
  | U_handleSearch
  | U_refresh
  | U_resetFilters
  | U_toggleSelectAll
  | U_batchUpdateStatus bool bool outcome
  | U_changePage jsnum
  | U_jumpToPage
  | U_openEditModal
  | U_closeModal
  | U_handleSubmit bool outcome



subsection \<open>The login page (\<open>utils/notify.ts\<close> l.78--229)\<close>




subsection \<open>The settings page (\<open>unnamed/part_001\<close>)\<close>


text \<open>
  \<open>S_onMounted\<close> carries how the four calls end and whether the error was already
  notified; \<open>S_saveSettings\<close> the current tab, the end of the one call made and the
  same flag; \<open>S_testSMTPSettings\<close> whether the test address is filled; \<open>S_changePassword\<close>
  whether the three fields are filled, whether the new password and its confirmation
  agree, and the answer of the confirm dialog; \<open>S_addSiteScriptItem\<close> and
  \<open>S_addAboutServiceItem\<close> whether the list is full already.
\<close>

datatype settings_entry =
    S_onMounted outcome outcome outcome outcome bool
  | S_saveSettings string outcome bool
  | S_testSMTPSettings bool outcome bool
  | S_changePassword bool bool bool outcome bool
  | S_setCurrentLang
  | S_setCurrentTab
  | S_addSiteScriptItem bool
  | S_removeSiteScriptItem
  | S_addAboutServiceItem bool
  | S_removeAboutServiceItem



subsection \<open>The whole program\<close>













section \<open>Facts about the operations\<close>

lemma rev_dropWhile_hd:
  assumes "rev (dropWhile P (rev a)) \<noteq> []"
  shows "hd (rev (dropWhile P (rev a))) = hd a"
proof -
  have "rev a = takeWhile P (rev a) @ dropWhile P (rev a)" by simp
  then have "a = rev (dropWhile P (rev a)) @ rev (takeWhile P (rev a))"
    by (metis rev_append rev_rev_ident)
  with assms show ?thesis by (metis hd_append2)
qed

lemma trim_idem: "trim (trim s) = trim s"
proof -
  define a where "a = dropWhile isWhiteSpace s"
  define u where "u = rev (dropWhile isWhiteSpace (rev a))"
  have a: "a = [] \<or> \<not> isWhiteSpace (hd a)"
    unfolding a_def by (metis hd_dropWhile)
  have "u = [] \<or> \<not> isWhiteSpace (hd u)"
  proof (cases "u = []")
    case False
    then have "hd u = hd a" "a \<noteq> []"
      using rev_dropWhile_hd[of isWhiteSpace a] unfolding u_def by auto
    with a show ?thesis by simp
  qed simp
  then have "dropWhile isWhiteSpace u = u"
    by (cases u) auto
  moreover have "dropWhile isWhiteSpace (rev u) = rev u"
    unfolding u_def by simp
  ultimately show ?thesis
    unfolding trim_def a_def[symmetric] u_def[symmetric] by simp
qed

lemma tables_agree:
  "failurePrefixes_notice = failurePrefixes_notify" "punctuation_notice = punctuation_notify"
  by (simp_all add: failurePrefixes_notice_def failurePrefixes_notify_def
      punctuation_notice_def punctuation_notify_def)

lemma includes_self: "includes' a a"
  by (cases a) (simp_all add: startsWith_def)

lemma simplifyMessage_trim: "simplifyMessage lower (trim s) = simplifyMessage lower s"
  by (simp add: simplifyMessage_def trim_idem)

lemma simplifyNoticeMessage_trim: "simplifyNoticeMessage lower (trim s) = simplifyNoticeMessage lower s"
  by (simp add: simplifyNoticeMessage_def trim_idem)

lemma normalisers_agree: "simplifyNoticeMessage lower s = simplifyMessage lower s"
  unfolding simplifyNoticeMessage_def simplifyMessage_def tables_agree ..

lemma includes_iff: "includes' a b \<longleftrightarrow> (\<exists>ps ss. a = ps @ b @ ss)"
proof (induction a)
  case Nil
  then show ?case by simp
next
  case (Cons c cs)
  have sw: "startsWith (c # cs) b \<longleftrightarrow> (\<exists>ss. c # cs = b @ ss)"
    unfolding startsWith_def by (metis append_eq_conv_conj append_take_drop_id)
  show ?case
  proof
    assume "includes' (c # cs) b"
    then consider "startsWith (c # cs) b" | "includes' cs b" by auto
    then show "\<exists>ps ss. c # cs = ps @ b @ ss"
    proof cases
      case 1
      then obtain ss where "c # cs = b @ ss" using sw by blast
      then have "c # cs = [] @ b @ ss" by simp
      then show ?thesis by blast
    next
      case 2
      then obtain ps ss where "cs = ps @ b @ ss" using Cons.IH by blast
      then have "c # cs = (c # ps) @ b @ ss" by simp
      then show ?thesis by blast
    qed
  next
    assume "\<exists>ps ss. c # cs = ps @ b @ ss"
    then obtain ps ss where e: "c # cs = ps @ b @ ss" by blast
    show "includes' (c # cs) b"
    proof (cases ps)
      case Nil
      with e have "startsWith (c # cs) b" using sw by auto
      then show ?thesis by simp
    next
      case (Cons p ps')
      with e have "cs = ps' @ b @ ss" by simp
      then have "includes' cs b" using Cons.IH by blast
      then show ?thesis by simp
    qed
  qed
qed

lemma shouldSkip_records:
  "trim m \<noteq> [] \<Longrightarrow>
   snd (shouldSkip lower ty m now d) =
     \<lparr>lastMessage = trim m, lastNormalized = simplifyMessage lower m,
      lastType = Some ty, lastAt = now\<rparr>"
  by (simp add: shouldSkip_def Let_def simplifyMessage_trim)

lemma shouldSkip_exact:
  "trim m \<noteq> [] \<Longrightarrow> lastType d = Some ty \<Longrightarrow> lastMessage d = trim m \<Longrightarrow>
   now - lastAt d \<le> 1500 \<Longrightarrow> fst (shouldSkip lower ty m now d)"
  by (simp add: shouldSkip_def Let_def dedupeWindowMs_def)

lemma shouldSkip_similar:
  "trim m \<noteq> [] \<Longrightarrow> lastType d = Some ty \<Longrightarrow> now - lastAt d \<le> 1500 \<Longrightarrow>
   lastNormalized d \<noteq> [] \<Longrightarrow> simplifyMessage lower m \<noteq> [] \<Longrightarrow>
   includes' (simplifyMessage lower m) (lastNormalized d)
     \<or> includes' (lastNormalized d) (simplifyMessage lower m) \<Longrightarrow>
   fst (shouldSkip lower ty m now d)"
  by (simp add: shouldSkip_def Let_def dedupeWindowMs_def simplifyMessage_trim)

lemma shouldSkip_outside:
  "now - lastAt d > 1500 \<Longrightarrow> \<not> fst (shouldSkip lower ty m now d)"
  by (simp add: shouldSkip_def Let_def dedupeWindowMs_def)

lemma trim_Nil: "trim [] = []"
  by (simp add: trim_def)

lemma pushNotice_skipped:
  "trim m \<noteq> [] \<Longrightarrow> fst (shouldSkip lower ty m now d) \<Longrightarrow>
   pushNotice lower t (Some m) ty key now (d, st) =
     (snd (shouldSkip lower ty m now d), st, None)"
  by (cases "shouldSkip lower ty m now d") (auto simp: pushNotice_def Let_def trim_Nil)

lemma pushNotice_passed:
  "trim m \<noteq> [] \<Longrightarrow> \<not> fst (shouldSkip lower ty m now d) \<Longrightarrow>
   pushNotice lower t (Some m) ty key now (d, st) =
     (snd (shouldSkip lower ty m now d),
      snd (show' lower m ty defaultDuration now st), Some (m, ty))"
  by (cases "shouldSkip lower ty m now d") (auto simp: pushNotice_def Let_def trim_Nil)

lemma shouldSkipAll_duplicates:
  "c \<noteq> [] \<Longrightarrow> list_all (\<lambda>call. trim (fst call) = c) calls \<Longrightarrow>
   lastType d = Some ty \<Longrightarrow> lastMessage d = c \<Longrightarrow>
   gapsWithinWindow (lastAt d) (map snd calls) \<Longrightarrow>
   list_all (\<lambda>r. r) (shouldSkipAll lower ty calls d)"
proof (induction calls arbitrary: d)
  case Nil
  then show ?case by simp
next
  case (Cons call calls)
  obtain m now where call: "call = (m, now)" by (cases call)
  from Cons.prems call have m: "trim m = c" "trim m \<noteq> []" by auto
  from Cons.prems call have gap: "now - lastAt d \<le> 1500" "gapsWithinWindow now (map snd calls)"
    by (auto simp: dedupeWindowMs_def)
  have here: "fst (shouldSkip lower ty m now d)"
    by (rule shouldSkip_exact) (use m gap Cons.prems in simp_all)
  let ?d = "snd (shouldSkip lower ty m now d)"
  have d: "?d = \<lparr>lastMessage = trim m, lastNormalized = simplifyMessage lower m,
      lastType = Some ty, lastAt = now\<rparr>"
    by (rule shouldSkip_records) (use m in simp)
  have "list_all (\<lambda>r. r) (shouldSkipAll lower ty calls ?d)"
    by (rule Cons.IH) (use Cons.prems m gap d in simp_all)
  with here call show ?case by simp
qed

lemma items_remove: "items (remove i st) = filter (\<lambda>item. id' item \<noteq> i) (items st)"
  by (simp add: remove_def Let_def clearTimeout_def split: option.splits)

lemma sequence_remove: "sequence (remove i st) = sequence st"
  by (simp add: remove_def Let_def clearTimeout_def split: option.splits)

lemma nextHandle_remove: "nextHandle (remove i st) = nextHandle st"
  by (simp add: remove_def Let_def clearTimeout_def split: option.splits)

lemma timerMap_remove: "timerMap (remove i st) = (timerMap st)(i := None)"
  by (auto simp: remove_def Let_def clearTimeout_def split: option.splits)

lemma activeTimers_remove:
  "activeTimers (remove i st) h =
     (if timerMap st i = Some h then None else activeTimers st h)"
  by (auto simp: remove_def Let_def clearTimeout_def split: option.splits)

lemma items_fold_remove:
  "items (fold (\<lambda>item. remove (id' item)) xs st) =
     filter (\<lambda>item. id' item \<notin> id' ` set xs) (items st)"
proof (induction xs arbitrary: st)
  case Nil
  then show ?case by simp
next
  case (Cons x xs)
  show ?case
    by (simp add: Cons.IH items_remove)
qed

lemma sequence_fold_remove: "sequence (fold (\<lambda>item. remove (id' item)) xs st) = sequence st"
  by (induction xs arbitrary: st) (simp_all add: sequence_remove)

lemma nextHandle_fold_remove: "nextHandle (fold (\<lambda>item. remove (id' item)) xs st) = nextHandle st"
  by (induction xs arbitrary: st) (simp_all add: nextHandle_remove)

lemma timerMap_fold_remove:
  "timerMap (fold (\<lambda>item. remove (id' item)) xs st) i =
     (if i \<in> id' ` set xs then None else timerMap st i)"
  by (induction xs arbitrary: st) (auto simp: timerMap_remove)


lemma filter_overflow_length:
  assumes "k \<le> length xs"
  shows "length (filter (\<lambda>item. f item \<notin> f ` set (take k xs)) xs) \<le> length xs - k"
proof -
  have "filter (\<lambda>item. f item \<notin> f ` set (take k xs)) (take k xs) = []"
    by (simp add: filter_empty_conv)
  then have "filter (\<lambda>item. f item \<notin> f ` set (take k xs)) xs
      = filter (\<lambda>item. f item \<notin> f ` set (take k xs)) (drop k xs)"
    by (metis append_Nil append_take_drop_id filter_append)
  moreover have "length (filter (\<lambda>item. f item \<notin> f ` set (take k xs)) (drop k xs))
      \<le> length (drop k xs)"
    by (rule length_filter_le)
  ultimately show ?thesis by simp
qed

lemma removeOverflow_bounded: "length (items (removeOverflow st)) \<le> 5"
proof (cases "length (items st) > 5")
  case True
  have "length (items st) - 5 \<le> length (items st)" by simp
  from filter_overflow_length[OF this, of id'] True show ?thesis
    by (simp add: removeOverflow_def items_fold_remove)
next
  case False
  then show ?thesis by (simp add: removeOverflow_def)
qed

lemma hasSimilar_spec:
  "hasSimilarVisibleNotice lower kind (trim msg) st = similarVisible_spec lower kind msg st"
  by (auto simp: hasSimilarVisibleNotice_def similarVisible_spec_def Let_def
      simplifyNoticeMessage_trim list_ex_iff)

lemma show_unfold:
  assumes "trim msg \<noteq> []" and "\<not> hasSimilarVisibleNotice lower kind (trim msg) st"
  shows "\<exists>st2. show' lower msg kind duration now st = (Some (Suc (sequence st)), removeOverflow st2)
    \<and> items st2 = items st @ [\<lparr>id' = Suc (sequence st), message = trim msg, type' = kind\<rparr>]
    \<and> sequence st2 = Suc (sequence st)
    \<and> (0 < duration \<longrightarrow>
          timerMap st2 = (timerMap st)(Suc (sequence st) \<mapsto> nextHandle st)
          \<and> activeTimers st2 =
              (activeTimers st)(nextHandle st \<mapsto> (now + duration, Suc (sequence st)))
          \<and> nextHandle st2 = Suc (nextHandle st))
    \<and> (\<not> 0 < duration \<longrightarrow>
          timerMap st2 = timerMap st \<and> activeTimers st2 = activeTimers st
          \<and> nextHandle st2 = nextHandle st)"
proof (cases "0 < duration")
  case True
  let ?st2 = "st\<lparr>sequence := Suc (sequence st),
      items := items st @ [\<lparr>id' = Suc (sequence st), message = trim msg, type' = kind\<rparr>],
      activeTimers := (activeTimers st)(nextHandle st \<mapsto> (now + duration, Suc (sequence st))),
      nextHandle := Suc (nextHandle st),
      timerMap := (timerMap st)(Suc (sequence st) \<mapsto> nextHandle st)\<rparr>"
  show ?thesis
    by (rule exI[of _ ?st2]) (use assms True in \<open>simp add: show'_def Let_def setTimeout_def\<close>)
next
  case False
  let ?st2 = "st\<lparr>sequence := Suc (sequence st),
      items := items st @ [\<lparr>id' = Suc (sequence st), message = trim msg, type' = kind\<rparr>]\<rparr>"
  show ?thesis
    by (rule exI[of _ ?st2]) (use assms False in \<open>simp add: show'_def Let_def setTimeout_def\<close>)
qed

lemma show_suppressed:
  "trim msg = [] \<or> hasSimilarVisibleNotice lower kind (trim msg) st \<Longrightarrow>
   show' lower msg kind duration now st = (None, st)"
  by (auto simp: show'_def Let_def)

lemma show_result:
  "fst (show' lower msg kind duration now st) \<noteq> None \<longleftrightarrow>
   trim msg \<noteq> [] \<and> \<not> hasSimilarVisibleNotice lower kind (trim msg) st"
  by (auto simp: show'_def Let_def)

lemma overflow_keeps_new:
  assumes fresh: "idsFresh st"
    and st2: "items st2 = items st @ [new]" "id' new = Suc (sequence st)"
  shows "items (removeOverflow st2) =
     (if length (items st) \<ge> 5
      then filter (\<lambda>item. id' item \<notin> id' ` set (take (length (items st) - 4) (items st)))
             (items st) @ [new]
      else items st @ [new])"
proof (cases "length (items st) \<ge> 5")
  case True
  let ?k = "length (items st) - 4"
  have k: "length (items st2) - 5 = ?k" "?k \<le> length (items st)"
    using True st2 by auto
  then have tk: "take (length (items st2) - 5) (items st2) = take ?k (items st)"
    using st2 by simp
  have "id' new \<notin> id' ` set (items st)"
    using fresh st2 by (auto simp: idsFresh_def list_all_iff)
  then have "id' new \<notin> id' ` set (take ?k (items st))"
    by (meson image_mono in_mono set_take_subset)
  with True st2 tk show ?thesis
    by (simp add: removeOverflow_def items_fold_remove)
next
  case False
  with st2 show ?thesis by (simp add: removeOverflow_def)
qed

lemma show_appends:
  assumes "trim msg \<noteq> []" and "\<not> hasSimilarVisibleNotice lower kind (trim msg) st"
    and "idsFresh st"
  shows "fst (show' lower msg kind duration now st) = Some (Suc (sequence st))"
    and "items (snd (show' lower msg kind duration now st)) \<noteq> []"
    and "last (items (snd (show' lower msg kind duration now st)))
          = \<lparr>id' = Suc (sequence st), message = trim msg, type' = kind\<rparr>"
proof -
  obtain st2 where s: "show' lower msg kind duration now st
        = (Some (Suc (sequence st)), removeOverflow st2)"
    "items st2 = items st @ [\<lparr>id' = Suc (sequence st), message = trim msg, type' = kind\<rparr>]"
    using show_unfold[OF assms(1,2)] by blast
  show "fst (show' lower msg kind duration now st) = Some (Suc (sequence st))"
    using s by simp
  have o: "items (removeOverflow st2) =
     (if length (items st) \<ge> 5
      then filter (\<lambda>item. id' item \<notin> id' ` set (take (length (items st) - 4) (items st)))
             (items st) @ [\<lparr>id' = Suc (sequence st), message = trim msg, type' = kind\<rparr>]
      else items st @ [\<lparr>id' = Suc (sequence st), message = trim msg, type' = kind\<rparr>])"
    by (rule overflow_keeps_new[OF assms(3) s(2)]) simp
  show "items (snd (show' lower msg kind duration now st)) \<noteq> []"
    using s o by simp
  show "last (items (snd (show' lower msg kind duration now st)))
          = \<lparr>id' = Suc (sequence st), message = trim msg, type' = kind\<rparr>"
    using s o by simp
qed

lemma idsFresh_initial: "idsFresh initialStore"
  by (simp add: idsFresh_def initialStore_def)

lemma idsFresh_remove: "idsFresh st \<Longrightarrow> idsFresh (remove i st)"
  by (auto simp: idsFresh_def items_remove sequence_remove distinct_map_filter list_all_iff)

lemma idsFresh_fold_remove:
  "idsFresh st \<Longrightarrow> idsFresh (fold (\<lambda>item. remove (id' item)) xs st)"
  by (induction xs arbitrary: st) (simp_all add: idsFresh_remove)

lemma idsFresh_removeOverflow: "idsFresh st \<Longrightarrow> idsFresh (removeOverflow st)"
  by (simp add: removeOverflow_def idsFresh_fold_remove)

lemma idsFresh_show: 
  assumes "idsFresh st"
  shows "idsFresh (snd (show' lower msg kind duration now st))"
proof (cases "trim msg \<noteq> [] \<and> \<not> hasSimilarVisibleNotice lower kind (trim msg) st")
  case True
  then obtain st2 where s: "show' lower msg kind duration now st
        = (Some (Suc (sequence st)), removeOverflow st2)"
    "items st2 = items st @ [\<lparr>id' = Suc (sequence st), message = trim msg, type' = kind\<rparr>]"
    "sequence st2 = Suc (sequence st)"
    using show_unfold[of msg lower kind st duration now] by blast
  have "idsFresh st2"
    using assms s(2,3) by (fastforce simp: idsFresh_def list_all_iff)
  then show ?thesis using s(1) by (simp add: idsFresh_removeOverflow)
next
  case False
  then show ?thesis using assms show_suppressed[of msg lower kind st duration now] by auto
qed

lemma idsFresh_clear: "idsFresh st \<Longrightarrow> idsFresh (clear st)"
  by (simp add: clear_def idsFresh_remove split: list.splits)

lemma items_clearAll: "items (clearAll st) = []"
  by (simp add: clearAll_def)

lemma idsFresh_clearAll: "idsFresh (clearAll st)"
  by (simp add: idsFresh_def items_clearAll)

lemma idsFresh_clearTimeout: "idsFresh (clearTimeout h st) = idsFresh st"
  by (simp add: idsFresh_def clearTimeout_def)

lemma idsFresh_fireTimer: "idsFresh st \<Longrightarrow> idsFresh (fireTimer h now st)"
  by (simp add: fireTimer_def idsFresh_remove idsFresh_clearTimeout split: option.splits)

lemma handlesFresh_initial: "handlesFresh initialStore"
  by (simp add: handlesFresh_def initialStore_def)

lemma handlesFresh_remove: "handlesFresh st \<Longrightarrow> handlesFresh (remove i st)"
  by (auto simp: handlesFresh_def timerMap_remove nextHandle_remove split: if_splits)

lemma handlesFresh_removeOverflow: "handlesFresh st \<Longrightarrow> handlesFresh (removeOverflow st)"
  by (auto simp: handlesFresh_def removeOverflow_def timerMap_fold_remove
      nextHandle_fold_remove split: if_splits)

lemma handlesFresh_show:
  assumes "handlesFresh st"
  shows "handlesFresh (snd (show' lower msg kind duration now st))"
proof (cases "trim msg \<noteq> [] \<and> \<not> hasSimilarVisibleNotice lower kind (trim msg) st")
  case True
  then obtain st2 where s: "show' lower msg kind duration now st
        = (Some (Suc (sequence st)), removeOverflow st2)"
    "0 < duration \<longrightarrow>
          timerMap st2 = (timerMap st)(Suc (sequence st) \<mapsto> nextHandle st)
          \<and> nextHandle st2 = Suc (nextHandle st)"
    "\<not> 0 < duration \<longrightarrow> timerMap st2 = timerMap st \<and> nextHandle st2 = nextHandle st"
    using show_unfold[of msg lower kind st duration now] by blast
  have "handlesFresh st2"
    using assms s(2,3) by (cases "0 < duration") (auto simp: handlesFresh_def less_Suc_eq)
  then show ?thesis using s(1) by (simp add: handlesFresh_removeOverflow)
next
  case False
  then show ?thesis using assms show_suppressed[of msg lower kind st duration now] by auto
qed

lemma handlesFresh_clear: "handlesFresh st \<Longrightarrow> handlesFresh (clear st)"
  by (simp add: clear_def handlesFresh_remove split: list.splits)

lemma handlesFresh_clearAll: "handlesFresh (clearAll st)"
  by (simp add: handlesFresh_def clearAll_def)

lemma handlesFresh_fireTimer: "handlesFresh st \<Longrightarrow> handlesFresh (fireTimer h now st)"
proof -
  have c: "handlesFresh st \<Longrightarrow> handlesFresh (clearTimeout h st)"
    by (simp add: handlesFresh_def clearTimeout_def)
  show "handlesFresh st \<Longrightarrow> handlesFresh (fireTimer h now st)"
    by (simp add: fireTimer_def handlesFresh_remove c split: option.splits)
qed

lemma five_overflow:
  assumes "idsFresh st" and "length (items st) = 5"
    and "trim msg \<noteq> []" and "\<not> hasSimilarVisibleNotice lower kind (trim msg) st"
  shows "items (snd (show' lower msg kind duration now st))
          = tl (items st) @ [\<lparr>id' = Suc (sequence st), message = trim msg, type' = kind\<rparr>]"
    and "timerMap (snd (show' lower msg kind duration now st)) (id' (hd (items st))) = None"
    and "timerMap st (id' (hd (items st))) = Some h \<Longrightarrow>
         activeTimers (snd (show' lower msg kind duration now st)) h = None"
proof -
  let ?new = "\<lparr>id' = Suc (sequence st), message = trim msg, type' = kind\<rparr>"
  obtain st2 where s: "show' lower msg kind duration now st
        = (Some (Suc (sequence st)), removeOverflow st2)"
    "items st2 = items st @ [?new]"
    "0 < duration \<longrightarrow> timerMap st2 = (timerMap st)(Suc (sequence st) \<mapsto> nextHandle st)"
    "\<not> 0 < duration \<longrightarrow> timerMap st2 = timerMap st"
    using show_unfold[OF assms(3,4), of duration now] by blast
  obtain x xs where x: "items st = x # xs" using assms(2) by (cases "items st") auto
  have dx: "id' x \<notin> id' ` set xs" "id' x \<noteq> Suc (sequence st)"
    using assms(1) x by (auto simp: idsFresh_def)
  have o: "items (removeOverflow st2) =
      filter (\<lambda>item. id' item \<notin> id' ` set (take (length (items st) - 4) (items st)))
             (items st) @ [?new]"
    using overflow_keeps_new[OF assms(1) s(2)] assms(2) by simp
  have "filter (\<lambda>item. id' item \<noteq> id' x) xs = xs"
    using dx(1) by (simp add: filter_id_conv image_iff) metis
  then show "items (snd (show' lower msg kind duration now st)) = tl (items st) @ [?new]"
    using s(1) o x assms(2) by simp
  have tk: "take (length (items st2) - 5) (items st2) = [x]"
    using s(2) x assms(2) by simp
  have ro: "removeOverflow st2 = remove (id' x) st2"
    using s(2) assms(2) tk by (simp add: removeOverflow_def)
  show "timerMap (snd (show' lower msg kind duration now st)) (id' (hd (items st))) = None"
    using s(1) ro x by (simp add: timerMap_remove)
  have tm: "timerMap st2 (id' x) = timerMap st (id' x)"
    using s(3,4) dx(2) by (cases "0 < duration") auto
  show "timerMap st (id' (hd (items st))) = Some h \<Longrightarrow>
         activeTimers (snd (show' lower msg kind duration now st)) h = None"
    using s(1) ro x tm by (simp add: activeTimers_remove)
qed

section \<open>Evaluating the concrete runs\<close>

lemmas string_defs = trim_def isWhiteSpace_def whiteSpaceUnits_def
  replaceFailurePrefix_def deleteClass_def inClass_def toLowerCaseASCII_def canonicalize_def
  matchSeparator_def isSeparator_def separatorUnits_def startsWith_def

lemmas normaliser_defs = simplifyMessage_def simplifyNoticeMessage_def
  failurePrefixes_notify_def failurePrefixes_notice_def
  punctuation_notify_def punctuation_notice_def

lemma trim_savedText: "trim savedText = savedText"
  by (simp add: string_defs savedText_def)

lemma trim_savedTextPadded: "trim savedTextPadded = savedText"
  by (simp add: string_defs savedText_def savedTextPadded_def)

lemma trim_notSavedText: "trim notSavedText = notSavedText"
  by (simp add: string_defs notSavedText_def)

lemma savedText_not_empty: "savedText \<noteq> []" "notSavedText \<noteq> []"
  by (simp_all add: savedText_def notSavedText_def)

lemma simplifyMessage_savedText:
  "simplifyMessage toLowerCaseASCII savedText = [0x73, 0x61, 0x76, 0x65, 0x64]"
  by (simp add: string_defs normaliser_defs savedText_def)

lemma simplifyMessage_notSavedText:
  "simplifyMessage toLowerCaseASCII notSavedText
     = [0x6E, 0x6F, 0x74, 0x73, 0x61, 0x76, 0x65, 0x64]"
  by (simp add: string_defs normaliser_defs notSavedText_def)

lemma includes_notSaved_saved:
  "includes' [0x6E, 0x6F, 0x74, 0x73, 0x61, 0x76, 0x65, 0x64] [0x73, 0x61, 0x76, 0x65, 0x64]"
  by (simp add: startsWith_def)

lemma afterFirstPush_eq:
  "afterFirstPush =
     (\<lparr>lastMessage = savedText, lastNormalized = [0x73, 0x61, 0x76, 0x65, 0x64],
       lastType = Some Error, lastAt = 1000000\<rparr>,
      \<lparr>items = [\<lparr>id' = 1, message = savedText, type' = Error\<rparr>],
       timerMap = [1 \<mapsto> 1], sequence = 1,
       activeTimers = [1 \<mapsto> (1006000, 1)], nextHandle = 2\<rparr>,
      Some (savedText, Error))"
  by (simp add: afterFirstPush_def notifyError_def pushNotice_def shouldSkip_def Let_def
      trim_savedText simplifyMessage_savedText savedText_not_empty initialDedupe_def
      initialStore_def dedupeWindowMs_def show'_def hasSimilarVisibleNotice_def
      normalisers_agree setTimeout_def defaultDuration_def removeOverflow_def)

section \<open>The window of repeated messages\<close>

text \<open>
  C1. A message whose trimmed text is not empty and equals the trimmed text of the
  message recorded by the previous call of \<open>shouldSkip\<close> for the same type, arriving
  at most 1500 ms after it, makes \<open>shouldSkip\<close> return true; \<open>pushNotice\<close> then
  returns without calling \<open>store.show\<close>, and the store is as it was.
\<close>

theorem exact_duplicate_suppressed:
  assumes "trim m \<noteq> []" and "trim m0 = trim m" and "t1 - t0 \<le> 1500"
  shows "fst (shouldSkip lower ty m t1 (snd (shouldSkip lower ty m0 t0 d0)))
       \<and> snd (pushNotice lower t (Some m) ty key t1 (snd (shouldSkip lower ty m0 t0 d0), st))
           = (st, None)"
proof -
  let ?d = "snd (shouldSkip lower ty m0 t0 d0)"
  have d: "?d = \<lparr>lastMessage = trim m, lastNormalized = simplifyMessage lower m0,
      lastType = Some ty, lastAt = t0\<rparr>"
    using shouldSkip_records[of m0 lower ty t0 d0] assms by simp
  have skip: "fst (shouldSkip lower ty m t1 ?d)"
    by (rule shouldSkip_exact) (use assms d in simp_all)
  with pushNotice_skipped[OF assms(1) skip] show ?thesis by simp
qed

theorem exact_duplicate_suppressed_witness:
  "trim savedTextPadded \<noteq> [] \<and> trim savedText = trim savedTextPadded
   \<and> (1001500 :: int) - 1000000 \<le> 1500
   \<and> fst (shouldSkip toLowerCaseASCII Error savedTextPadded 1001500
             (snd (shouldSkip toLowerCaseASCII Error savedText 1000000 initialDedupe)))
   \<and> snd (pushNotice toLowerCaseASCII untranslated (Some savedTextPadded) Error
             ''common.api.requestFailed'' 1001500
             (snd (shouldSkip toLowerCaseASCII Error savedText 1000000 initialDedupe),
              initialStore))
       = (initialStore, None)"
proof -
  have h1: "trim savedTextPadded \<noteq> []"
    by (simp add: trim_savedTextPadded savedText_not_empty)
  have h2: "trim savedText = trim savedTextPadded"
    by (simp add: trim_savedText trim_savedTextPadded)
  have h3: "(1001500 :: int) - 1000000 \<le> 1500"
    by simp
  show ?thesis
    using h1 h2 h3
      exact_duplicate_suppressed [OF h1 h2 h3, of toLowerCaseASCII Error initialDedupe
        untranslated "''common.api.requestFailed''" initialStore]
    by blast
qed

text \<open>
  C2. Two messages of one type at most 1500 ms apart, both with a non-empty trimmed
  text and a non-empty normalised core, one core including the other: the second call
  of \<open>shouldSkip\<close> returns true, and \<open>pushNotice\<close> does not call \<open>store.show\<close>
  for the second message.
\<close>

theorem similar_message_suppressed:
  assumes "trim m1 \<noteq> []" and "trim m2 \<noteq> []" and "t1 - t0 \<le> 1500"
    and "simplifyMessage lower m1 \<noteq> []" and "simplifyMessage lower m2 \<noteq> []"
    and "includes' (simplifyMessage lower m2) (simplifyMessage lower m1)
         \<or> includes' (simplifyMessage lower m1) (simplifyMessage lower m2)"
  shows "fst (shouldSkip lower ty m2 t1 (snd (shouldSkip lower ty m1 t0 d0)))
       \<and> snd (pushNotice lower t (Some m2) ty key t1 (snd (shouldSkip lower ty m1 t0 d0), st))
           = (st, None)"
proof -
  let ?d = "snd (shouldSkip lower ty m1 t0 d0)"
  have d: "?d = \<lparr>lastMessage = trim m1, lastNormalized = simplifyMessage lower m1,
      lastType = Some ty, lastAt = t0\<rparr>"
    using shouldSkip_records[of m1 lower ty t0 d0] assms by simp
  have skip: "fst (shouldSkip lower ty m2 t1 ?d)"
    by (rule shouldSkip_similar) (use assms d in simp_all)
  with pushNotice_skipped[OF assms(2) skip] show ?thesis by simp
qed

theorem similar_message_suppressed_witness:
  "trim savedText \<noteq> [] \<and> trim notSavedText \<noteq> [] \<and> (1001500 :: int) - 1000000 \<le> 1500
   \<and> simplifyMessage toLowerCaseASCII savedText \<noteq> []
   \<and> simplifyMessage toLowerCaseASCII notSavedText \<noteq> []
   \<and> includes' (simplifyMessage toLowerCaseASCII notSavedText)
         (simplifyMessage toLowerCaseASCII savedText)
   \<and> fst (shouldSkip toLowerCaseASCII Error notSavedText 1001500
             (snd (shouldSkip toLowerCaseASCII Error savedText 1000000 initialDedupe)))
   \<and> snd (pushNotice toLowerCaseASCII untranslated (Some notSavedText) Error
             ''common.api.requestFailed'' 1001500
             (snd (shouldSkip toLowerCaseASCII Error savedText 1000000 initialDedupe),
              initialStore))
       = (initialStore, None)"
proof -
  have h1: "trim savedText \<noteq> []"
    by (simp add: trim_savedText savedText_not_empty)
  have h2: "trim notSavedText \<noteq> []"
    by (simp add: trim_notSavedText savedText_not_empty)
  have h3: "(1001500 :: int) - 1000000 \<le> 1500"
    by simp
  have h4: "simplifyMessage toLowerCaseASCII savedText \<noteq> []"
    by (simp add: simplifyMessage_savedText)
  have h5: "simplifyMessage toLowerCaseASCII notSavedText \<noteq> []"
    by (simp add: simplifyMessage_notSavedText)
  have h6: "includes' (simplifyMessage toLowerCaseASCII notSavedText)
         (simplifyMessage toLowerCaseASCII savedText)"
    unfolding simplifyMessage_savedText simplifyMessage_notSavedText
    by (rule includes_notSaved_saved)
  show ?thesis
    using h1 h2 h3 h4 h5 h6
      similar_message_suppressed [OF h1 h2 h3 h4 h5 disjI1 [OF h6], of Error initialDedupe
        untranslated "''common.api.requestFailed''" initialStore]
    by blast
qed

text \<open>
  C9. A call of \<open>shouldSkip\<close> with a non-empty trimmed message overwrites the four
  variables whatever it returns: the type, the trimmed message, its normalised core, the
  time of the call. So in a series of calls of one type whose messages all trim to the
  same non-empty text, each call at most 1500 ms after the one before, every call after
  the first returns true, however long the series lasts.
\<close>

theorem window_slides:
  "(trim m \<noteq> [] \<longrightarrow>
      snd (shouldSkip lower ty m now d) =
        \<lparr>lastMessage = trim m, lastNormalized = simplifyMessage lower (trim m),
         lastType = Some ty, lastAt = now\<rparr>)
   \<and> (c \<noteq> [] \<and> trim m0 = c \<and> list_all (\<lambda>call. trim (fst call) = c) calls
        \<and> gapsWithinWindow t0 (map snd calls) \<longrightarrow>
      list_all (\<lambda>r. r) (tl (shouldSkipAll lower ty ((m0, t0) # calls) d)))"
proof (intro conjI impI)
  assume "trim m \<noteq> []"
  then show "snd (shouldSkip lower ty m now d) =
        \<lparr>lastMessage = trim m, lastNormalized = simplifyMessage lower (trim m),
         lastType = Some ty, lastAt = now\<rparr>"
    by (simp add: shouldSkip_records simplifyMessage_trim)
next
  assume a: "c \<noteq> [] \<and> trim m0 = c \<and> list_all (\<lambda>call. trim (fst call) = c) calls
        \<and> gapsWithinWindow t0 (map snd calls)"
  let ?d = "snd (shouldSkip lower ty m0 t0 d)"
  have d: "?d = \<lparr>lastMessage = trim m0, lastNormalized = simplifyMessage lower m0,
      lastType = Some ty, lastAt = t0\<rparr>"
    by (rule shouldSkip_records) (use a in simp)
  have "list_all (\<lambda>r. r) (shouldSkipAll lower ty calls ?d)"
    by (rule shouldSkipAll_duplicates[of c]) (use a d in simp_all)
  then show "list_all (\<lambda>r. r) (tl (shouldSkipAll lower ty ((m0, t0) # calls) d))"
    by simp
qed

theorem window_slides_witness:
  "trim savedText \<noteq> [] \<and> savedText \<noteq> []
   \<and> list_all (\<lambda>call. trim (fst call) = savedText)
        [(savedTextPadded, 1001500), (savedText, 1003000), (savedText, 1004500)]
   \<and> gapsWithinWindow 1000000 [1001500, 1003000, 1004500]
   \<and> snd (shouldSkip toLowerCaseASCII Error savedText 1000000 initialDedupe) =
        \<lparr>lastMessage = trim savedText,
         lastNormalized = simplifyMessage toLowerCaseASCII (trim savedText),
         lastType = Some Error, lastAt = 1000000\<rparr>
   \<and> tl (shouldSkipAll toLowerCaseASCII Error
            [(savedText, 1000000), (savedTextPadded, 1001500), (savedText, 1003000),
             (savedText, 1004500)] initialDedupe)
       = [True, True, True]"
proof -
  let ?calls = "[(savedTextPadded, 1001500), (savedText, 1003000), (savedText, 1004500)]"
  have h1: "trim savedText \<noteq> []" and h2: "savedText \<noteq> []"
    by (simp_all add: trim_savedText savedText_not_empty)
  have h3: "list_all (\<lambda>call. trim (fst call) = savedText) ?calls"
    by (simp add: trim_savedText trim_savedTextPadded)
  have h4: "gapsWithinWindow 1000000 [1001500, 1003000, 1004500]"
    by (simp add: dedupeWindowMs_def)
  have h5: "savedText \<noteq> [] \<and> trim savedText = savedText
        \<and> list_all (\<lambda>call. trim (fst call) = savedText) ?calls
        \<and> gapsWithinWindow 1000000 (map snd ?calls)"
    using h2 h3 h4 by (simp add: trim_savedText)
  note w = window_slides [of savedText toLowerCaseASCII Error 1000000 initialDedupe
        savedText savedText ?calls 1000000]
  have c1: "snd (shouldSkip toLowerCaseASCII Error savedText 1000000 initialDedupe) =
        \<lparr>lastMessage = trim savedText,
         lastNormalized = simplifyMessage toLowerCaseASCII (trim savedText),
         lastType = Some Error, lastAt = 1000000\<rparr>"
    using w h1 by blast
  have c2: "list_all (\<lambda>r. r) (tl (shouldSkipAll toLowerCaseASCII Error
            ((savedText, 1000000) # ?calls) initialDedupe))"
    using w h5 by blast
  have r: "list_all (\<lambda>r. r) rs \<Longrightarrow> length rs = 3 \<Longrightarrow> rs = [True, True, True]" for rs
    by (cases rs; cases "tl rs"; cases "tl (tl rs)") auto
  have c3: "tl (shouldSkipAll toLowerCaseASCII Error
            ((savedText, 1000000) # ?calls) initialDedupe) = [True, True, True]"
    by (rule r [OF c2]) simp
  show ?thesis
    using h1 h2 h3 h4 c1 c3 by blast
qed

section \<open>The store's own test\<close>

lemma simplifyNoticeMessage_letters:
  "simplifyNoticeMessage toLowerCaseASCII [0x41] = [0x61]"
  "simplifyNoticeMessage toLowerCaseASCII [0x42] = [0x62]"
  "simplifyNoticeMessage toLowerCaseASCII [0x43] = [0x63]"
  "simplifyNoticeMessage toLowerCaseASCII [0x44] = [0x64]"
  "simplifyNoticeMessage toLowerCaseASCII [0x45] = [0x65]"
  "simplifyNoticeMessage toLowerCaseASCII [0x46] = [0x66]"
  by (simp_all add: string_defs normaliser_defs)

lemma trim_letters:
  "trim [0x41] = [0x41]" "trim [0x42] = [0x42]" "trim [0x43] = [0x43]"
  "trim [0x44] = [0x44]" "trim [0x45] = [0x45]" "trim [0x46] = [0x46]"
  by (simp_all add: string_defs)

lemma idsFresh_fullStore: "idsFresh fullStore"
  by (simp add: idsFresh_def fullStore_def)


lemma not_similar_fullStore: "\<not> similarVisible_spec toLowerCaseASCII Error [0x46] fullStore"
  by (simp add: similarVisible_spec_def fullStore_def simplifyNoticeMessage_letters
      startsWith_def)

lemma similar_afterFirstPush:
  "similarVisible_spec toLowerCaseASCII Error notSavedText (fst (snd afterFirstPush))"
  by (simp add: similarVisible_spec_def afterFirstPush_eq normalisers_agree
      simplifyMessage_savedText simplifyMessage_notSavedText startsWith_def)

text \<open>The full store is what five calls of \<open>show\<close> leave behind.\<close>

lemma fullStore_reached:
  "snd (show' toLowerCaseASCII [0x45] Error 6000 1004
     (snd (show' toLowerCaseASCII [0x44] Error 6000 1003
       (snd (show' toLowerCaseASCII [0x43] Error 6000 1002
         (snd (show' toLowerCaseASCII [0x42] Error 6000 1001
           (snd (show' toLowerCaseASCII [0x41] Error 6000 1000 initialStore)))))))))
   = fullStore"
  by (simp add: show'_def Let_def trim_letters hasSimilarVisibleNotice_def
      simplifyNoticeMessage_letters initialStore_def setTimeout_def removeOverflow_def
      startsWith_def fullStore_def)
    (simp add: eval_nat_numeral)

lemma filter_overflow_drop:
  assumes "distinct (map f xs)"
  shows "filter (\<lambda>x. f x \<notin> f ` set (take k xs)) xs = drop k xs"
proof -
  have d: "distinct (map f (take k xs) @ map f (drop k xs))"
    using assms by (metis append_take_drop_id map_append)
  have a: "filter (\<lambda>x. f x \<notin> f ` set (take k xs)) (take k xs) = []"
    by (simp add: filter_empty_conv)
  have b: "filter (\<lambda>x. f x \<notin> f ` set (take k xs)) (drop k xs) = drop k xs"
    using d by (auto simp: filter_id_conv)
  have "filter (\<lambda>x. f x \<notin> f ` set (take k xs)) (take k xs @ drop k xs) = drop k xs"
    unfolding filter_append a b by simp
  then show ?thesis by simp
qed

lemma show_items:
  assumes "trim msg \<noteq> []" and "\<not> hasSimilarVisibleNotice lower kind (trim msg) st"
    and "idsFresh st"
  shows "items (snd (show' lower msg kind duration now st))
          = drop (length (items st) - 4) (items st)
              @ [\<lparr>id' = Suc (sequence st), message = trim msg, type' = kind\<rparr>]"
    and "sequence (snd (show' lower msg kind duration now st)) = Suc (sequence st)"
proof -
  let ?new = "\<lparr>id' = Suc (sequence st), message = trim msg, type' = kind\<rparr>"
  obtain st2 where s: "show' lower msg kind duration now st
        = (Some (Suc (sequence st)), removeOverflow st2)"
    "items st2 = items st @ [?new]" "sequence st2 = Suc (sequence st)"
    using show_unfold[OF assms(1,2)] by blast
  have o: "items (removeOverflow st2) =
     (if length (items st) \<ge> 5
      then filter (\<lambda>item. id' item \<notin> id' ` set (take (length (items st) - 4) (items st)))
             (items st) @ [?new]
      else items st @ [?new])"
    by (rule overflow_keeps_new[OF assms(3) s(2)]) simp
  have "distinct (map id' (items st))"
    using assms(3) by (simp add: idsFresh_def)
  from filter_overflow_drop[OF this, of "length (items st) - 4"] o s(1)
  show "items (snd (show' lower msg kind duration now st))
          = drop (length (items st) - 4) (items st) @ [?new]"
    by simp
  show "sequence (snd (show' lower msg kind duration now st)) = Suc (sequence st)"
    using s(1,3) by (simp add: removeOverflow_def sequence_fold_remove)
qed

lemma not_similar_afterFirstPush:
  "\<not> similarVisible_spec toLowerCaseASCII Error [0x46] (fst (snd afterFirstPush))"
  by (simp add: similarVisible_spec_def afterFirstPush_eq normalisers_agree
      simplifyMessage_savedText simplifyNoticeMessage_letters [unfolded normalisers_agree]
      startsWith_def)

lemma idsFresh_afterFirstPush: "idsFresh (fst (snd afterFirstPush))"
  by (simp add: idsFresh_def afterFirstPush_eq)

text \<open>
  C5. \<open>show(msg, kind, duration)\<close> with a non-empty trimmed message returns
  \<open>undefined\<close> and leaves the store as it is (items, timer map, sequence counter) when
  some visible item has the kind and the two normalised texts are non-empty and equal or
  one includes the other. Otherwise it appends an item carrying the trimmed message
  and the kind, with the next id: the list afterwards is the old list, cut to its last
  four items if it had five, followed by the new item; below five items nothing is cut.
  The store's ids are the ones it handed out itself.
\<close>

theorem store_suppresses_similar_visible:
  assumes "trim msg \<noteq> []"
  shows "(similarVisible_spec lower kind msg st \<longrightarrow>
            show' lower msg kind duration now st = (None, st))
       \<and> (\<not> similarVisible_spec lower kind msg st \<and> idsFresh st \<longrightarrow>
            fst (show' lower msg kind duration now st) = Some (Suc (sequence st))
            \<and> items (snd (show' lower msg kind duration now st))
                = drop (length (items st) - 4) (items st)
                    @ [\<lparr>id' = Suc (sequence st), message = trim msg, type' = kind\<rparr>]
            \<and> (length (items st) < 5 \<longrightarrow>
                  items (snd (show' lower msg kind duration now st))
                    = items st
                        @ [\<lparr>id' = Suc (sequence st), message = trim msg, type' = kind\<rparr>])
            \<and> sequence (snd (show' lower msg kind duration now st)) = Suc (sequence st)
            \<and> items (snd (show' lower msg kind duration now st)) \<noteq> []
            \<and> last (items (snd (show' lower msg kind duration now st)))
                = \<lparr>id' = Suc (sequence st), message = trim msg, type' = kind\<rparr>)"
proof (intro conjI impI)
  assume "similarVisible_spec lower kind msg st"
  then show "show' lower msg kind duration now st = (None, st)"
    using show_suppressed [of msg lower kind st duration now] by (simp add: hasSimilar_spec)
next
  assume a: "\<not> similarVisible_spec lower kind msg st \<and> idsFresh st"
  then have n: "\<not> hasSimilarVisibleNotice lower kind (trim msg) st" and f: "idsFresh st"
    by (simp_all add: hasSimilar_spec)
  show "fst (show' lower msg kind duration now st) = Some (Suc (sequence st))"
    by (rule show_appends(1) [OF assms n f])
  show i: "items (snd (show' lower msg kind duration now st))
      = drop (length (items st) - 4) (items st)
          @ [\<lparr>id' = Suc (sequence st), message = trim msg, type' = kind\<rparr>]"
    by (rule show_items(1) [OF assms n f])
  show "items (snd (show' lower msg kind duration now st))
      = items st @ [\<lparr>id' = Suc (sequence st), message = trim msg, type' = kind\<rparr>]"
    if "length (items st) < 5"
    using i that by simp
  show "sequence (snd (show' lower msg kind duration now st)) = Suc (sequence st)"
    by (rule show_items(2) [OF assms n f])
  show "items (snd (show' lower msg kind duration now st)) \<noteq> []"
    by (rule show_appends(2) [OF assms n f])
  show "last (items (snd (show' lower msg kind duration now st)))
      = \<lparr>id' = Suc (sequence st), message = trim msg, type' = kind\<rparr>"
    by (rule show_appends(3) [OF assms n f])
qed

theorem store_suppresses_similar_visible_witness:
  "trim notSavedText \<noteq> []
   \<and> similarVisible_spec toLowerCaseASCII Error notSavedText (fst (snd afterFirstPush))
   \<and> show' toLowerCaseASCII notSavedText Error 6000 1002000 (fst (snd afterFirstPush))
       = (None, fst (snd afterFirstPush))
   \<and> trim [0x46] \<noteq> []
   \<and> \<not> similarVisible_spec toLowerCaseASCII Error [0x46] fullStore
   \<and> idsFresh fullStore
   \<and> fst (show' toLowerCaseASCII [0x46] Error 6000 1005 fullStore) = Some 6
   \<and> last (items (snd (show' toLowerCaseASCII [0x46] Error 6000 1005 fullStore)))
       = \<lparr>id' = 6, message = [0x46], type' = Error\<rparr>
   \<and> items (snd (show' toLowerCaseASCII [0x46] Error 6000 1005 fullStore))
       = [\<lparr>id' = 2, message = [0x42], type' = Error\<rparr>,
          \<lparr>id' = 3, message = [0x43], type' = Error\<rparr>,
          \<lparr>id' = 4, message = [0x44], type' = Error\<rparr>,
          \<lparr>id' = 5, message = [0x45], type' = Error\<rparr>,
          \<lparr>id' = 6, message = [0x46], type' = Error\<rparr>]
   \<and> \<not> similarVisible_spec toLowerCaseASCII Error [0x46] (fst (snd afterFirstPush))
   \<and> idsFresh (fst (snd afterFirstPush))
   \<and> length (items (fst (snd afterFirstPush))) < 5
   \<and> items (snd (show' toLowerCaseASCII [0x46] Error 6000 1002000 (fst (snd afterFirstPush))))
       = [\<lparr>id' = 1, message = savedText, type' = Error\<rparr>,
          \<lparr>id' = 2, message = [0x46], type' = Error\<rparr>]
   \<and> sequence (snd (show' toLowerCaseASCII [0x46] Error 6000 1002000
                        (fst (snd afterFirstPush)))) = 2"
proof -
  let ?one = "fst (snd afterFirstPush)"
  have h1: "trim notSavedText \<noteq> []"
    by (simp add: trim_notSavedText savedText_not_empty)
  have h2: "trim [0x46] \<noteq> []"
    by (simp add: trim_letters)
  have h3: "length (items ?one) < 5"
    by (simp add: afterFirstPush_eq)
  have c1: "show' toLowerCaseASCII notSavedText Error 6000 1002000 ?one = (None, ?one)"
    using store_suppresses_similar_visible [OF h1, of toLowerCaseASCII Error ?one
        6000 1002000] similar_afterFirstPush
    by blast
  have c2: "fst (show' toLowerCaseASCII [0x46] Error 6000 1005 fullStore)
        = Some (Suc (sequence fullStore))
      \<and> last (items (snd (show' toLowerCaseASCII [0x46] Error 6000 1005 fullStore)))
        = \<lparr>id' = Suc (sequence fullStore), message = trim [0x46], type' = Error\<rparr>
      \<and> items (snd (show' toLowerCaseASCII [0x46] Error 6000 1005 fullStore))
        = drop (length (items fullStore) - 4) (items fullStore)
            @ [\<lparr>id' = Suc (sequence fullStore), message = trim [0x46], type' = Error\<rparr>]"
    using store_suppresses_similar_visible [OF h2, of toLowerCaseASCII Error fullStore
        6000 1005] not_similar_fullStore idsFresh_fullStore
    by blast
  have c3: "items (snd (show' toLowerCaseASCII [0x46] Error 6000 1002000 ?one))
        = items ?one
            @ [\<lparr>id' = Suc (sequence ?one), message = trim [0x46], type' = Error\<rparr>]
      \<and> sequence (snd (show' toLowerCaseASCII [0x46] Error 6000 1002000 ?one))
        = Suc (sequence ?one)"
    using store_suppresses_similar_visible [OF h2, of toLowerCaseASCII Error ?one
        6000 1002000] not_similar_afterFirstPush idsFresh_afterFirstPush h3
    by blast
  have s: "Suc (sequence fullStore) = 6"
    "drop (length (items fullStore) - 4) (items fullStore)
       = [\<lparr>id' = 2, message = [0x42], type' = Error\<rparr>,
          \<lparr>id' = 3, message = [0x43], type' = Error\<rparr>,
          \<lparr>id' = 4, message = [0x44], type' = Error\<rparr>,
          \<lparr>id' = 5, message = [0x45], type' = Error\<rparr>]"
    by (simp_all add: fullStore_def)
  have t: "Suc (sequence ?one) = 2"
    "items ?one = [\<lparr>id' = 1, message = savedText, type' = Error\<rparr>]"
    by (simp_all add: afterFirstPush_eq)
  have c2': "fst (show' toLowerCaseASCII [0x46] Error 6000 1005 fullStore) = Some 6"
    "last (items (snd (show' toLowerCaseASCII [0x46] Error 6000 1005 fullStore)))
       = \<lparr>id' = 6, message = [0x46], type' = Error\<rparr>"
    "items (snd (show' toLowerCaseASCII [0x46] Error 6000 1005 fullStore))
       = [\<lparr>id' = 2, message = [0x42], type' = Error\<rparr>,
          \<lparr>id' = 3, message = [0x43], type' = Error\<rparr>,
          \<lparr>id' = 4, message = [0x44], type' = Error\<rparr>,
          \<lparr>id' = 5, message = [0x45], type' = Error\<rparr>,
          \<lparr>id' = 6, message = [0x46], type' = Error\<rparr>]"
    using c2 unfolding s trim_letters by simp_all
  have c3': "items (snd (show' toLowerCaseASCII [0x46] Error 6000 1002000 ?one))
       = [\<lparr>id' = 1, message = savedText, type' = Error\<rparr>,
          \<lparr>id' = 2, message = [0x46], type' = Error\<rparr>]"
    "sequence (snd (show' toLowerCaseASCII [0x46] Error 6000 1002000 ?one)) = 2"
    using c3 unfolding t trim_letters by simp_all
  show ?thesis
    using h1 h2 h3 c1 c2' c3' similar_afterFirstPush not_similar_fullStore
      idsFresh_fullStore not_similar_afterFirstPush idsFresh_afterFirstPush
    by blast
qed

text \<open>
  C6. No store operation makes the list of notices longer than five: \<open>show\<close>,
  \<open>remove\<close>, \<open>clear\<close> and \<open>clearAll\<close> keep \<open>items.length <= 5\<close>. When
  \<open>show\<close> appends to a list of five, the oldest item is removed at once, its entry in
  the timer map is deleted and its timer is cleared, and exactly five items remain.
\<close>

theorem bounded_notice_list:
  "(length (items st) \<le> 5 \<longrightarrow>
      length (items (snd (show' lower msg kind duration now st))) \<le> 5
      \<and> length (items (remove i st)) \<le> 5
      \<and> length (items (clear st)) \<le> 5
      \<and> length (items (clearAll st)) \<le> 5)
   \<and> (idsFresh st \<and> length (items st) = 5
        \<and> fst (show' lower msg kind duration now st) \<noteq> None \<longrightarrow>
      items (snd (show' lower msg kind duration now st))
        = tl (items st) @ [\<lparr>id' = Suc (sequence st), message = trim msg, type' = kind\<rparr>]
      \<and> length (items (snd (show' lower msg kind duration now st))) = 5
      \<and> timerMap (snd (show' lower msg kind duration now st)) (id' (hd (items st))) = None
      \<and> (\<forall>h. timerMap st (id' (hd (items st))) = Some h \<longrightarrow>
             activeTimers (snd (show' lower msg kind duration now st)) h = None))"
proof (intro conjI impI)
  assume le: "length (items st) \<le> 5"
  show "length (items (snd (show' lower msg kind duration now st))) \<le> 5"
  proof (cases "trim msg \<noteq> [] \<and> \<not> hasSimilarVisibleNotice lower kind (trim msg) st")
    case True
    then obtain st2 where "show' lower msg kind duration now st
        = (Some (Suc (sequence st)), removeOverflow st2)"
      using show_unfold[of msg lower kind st duration now] by blast
    then show ?thesis by (simp add: removeOverflow_bounded)
  next
    case False
    then show ?thesis using le show_suppressed[of msg lower kind st duration now] by auto
  qed
  have r: "length (items (remove j st)) \<le> 5" for j
    using le le_trans[OF length_filter_le[of "\<lambda>item. id' item \<noteq> j" "items st"]]
    by (simp add: items_remove)
  show "length (items (remove i st)) \<le> 5" by (rule r)
  show "length (items (clear st)) \<le> 5"
    using le r by (simp add: clear_def split: list.splits)
  show "length (items (clearAll st)) \<le> 5" by (simp add: items_clearAll)
next
  assume a: "idsFresh st \<and> length (items st) = 5
        \<and> fst (show' lower msg kind duration now st) \<noteq> None"
  then have b: "trim msg \<noteq> []" "\<not> hasSimilarVisibleNotice lower kind (trim msg) st"
    using show_result[of lower msg kind duration now st] by auto
  from a have f: "idsFresh st" and l: "length (items st) = 5" by auto
  show i: "items (snd (show' lower msg kind duration now st))
        = tl (items st) @ [\<lparr>id' = Suc (sequence st), message = trim msg, type' = kind\<rparr>]"
    by (rule five_overflow(1)[OF f l b])
  show "length (items (snd (show' lower msg kind duration now st))) = 5"
    using i l by simp
  show "timerMap (snd (show' lower msg kind duration now st)) (id' (hd (items st))) = None"
    by (rule five_overflow(2)[OF f l b])
  show "\<forall>h. timerMap st (id' (hd (items st))) = Some h \<longrightarrow>
             activeTimers (snd (show' lower msg kind duration now st)) h = None"
    using five_overflow(3)[OF f l b] by blast
qed

theorem bounded_notice_list_witness:
  "length (items fullStore) \<le> 5
   \<and> length (items (snd (show' toLowerCaseASCII [0x46] Error 6000 1005 fullStore))) \<le> 5
   \<and> length (items (remove 3 fullStore)) \<le> 5
   \<and> length (items (clear fullStore)) \<le> 5
   \<and> length (items (clearAll fullStore)) \<le> 5
   \<and> idsFresh fullStore \<and> length (items fullStore) = 5
   \<and> fst (show' toLowerCaseASCII [0x46] Error 6000 1005 fullStore) \<noteq> None
   \<and> items (snd (show' toLowerCaseASCII [0x46] Error 6000 1005 fullStore))
       = [\<lparr>id' = 2, message = [0x42], type' = Error\<rparr>,
          \<lparr>id' = 3, message = [0x43], type' = Error\<rparr>,
          \<lparr>id' = 4, message = [0x44], type' = Error\<rparr>,
          \<lparr>id' = 5, message = [0x45], type' = Error\<rparr>,
          \<lparr>id' = 6, message = [0x46], type' = Error\<rparr>]
   \<and> timerMap (snd (show' toLowerCaseASCII [0x46] Error 6000 1005 fullStore)) 1 = None
   \<and> activeTimers (snd (show' toLowerCaseASCII [0x46] Error 6000 1005 fullStore)) 1 = None"
proof -
  let ?st = "snd (show' toLowerCaseASCII [0x46] Error 6000 1005 fullStore)"
  have h1: "length (items fullStore) \<le> 5" and h2: "length (items fullStore) = 5"
    by (simp_all add: fullStore_def)
  have h3: "fst (show' toLowerCaseASCII [0x46] Error 6000 1005 fullStore) \<noteq> None"
    using show_result [of toLowerCaseASCII "[0x46]" Error 6000 1005 fullStore]
      not_similar_fullStore hasSimilar_spec [of toLowerCaseASCII Error "[0x46]" fullStore]
    by (simp add: trim_letters)
  note b = bounded_notice_list [of fullStore toLowerCaseASCII "[0x46]" Error 6000 1005 3]
  have c1: "length (items ?st) \<le> 5 \<and> length (items (remove 3 fullStore)) \<le> 5
      \<and> length (items (clear fullStore)) \<le> 5 \<and> length (items (clearAll fullStore)) \<le> 5"
    using b h1 by blast
  have c2: "items ?st = tl (items fullStore)
        @ [\<lparr>id' = Suc (sequence fullStore), message = trim [0x46], type' = Error\<rparr>]
      \<and> timerMap ?st (id' (hd (items fullStore))) = None
      \<and> (\<forall>h. timerMap fullStore (id' (hd (items fullStore))) = Some h
            \<longrightarrow> activeTimers ?st h = None)"
    using b idsFresh_fullStore h2 h3 by blast
  have e: "tl (items fullStore)
        @ [\<lparr>id' = Suc (sequence fullStore), message = trim [0x46], type' = Error\<rparr>]
      = [\<lparr>id' = 2, message = [0x42], type' = Error\<rparr>,
         \<lparr>id' = 3, message = [0x43], type' = Error\<rparr>,
         \<lparr>id' = 4, message = [0x44], type' = Error\<rparr>,
         \<lparr>id' = 5, message = [0x45], type' = Error\<rparr>,
         \<lparr>id' = 6, message = [0x46], type' = Error\<rparr>]"
    "id' (hd (items fullStore)) = 1" "timerMap fullStore 1 = Some 1"
    by (simp_all add: fullStore_def trim_letters)
  have c3: "items ?st = [\<lparr>id' = 2, message = [0x42], type' = Error\<rparr>,
         \<lparr>id' = 3, message = [0x43], type' = Error\<rparr>,
         \<lparr>id' = 4, message = [0x44], type' = Error\<rparr>,
         \<lparr>id' = 5, message = [0x45], type' = Error\<rparr>,
         \<lparr>id' = 6, message = [0x46], type' = Error\<rparr>]"
    "timerMap ?st 1 = None" "activeTimers ?st 1 = None"
    using c2 e by auto
  show ?thesis
    using h1 h2 h3 c1 c3 idsFresh_fullStore by blast
qed

section \<open>Timers\<close>









lemma fireTimer_early:
  "activeTimers st h = Some (due, i) \<Longrightarrow> t < due \<Longrightarrow> fireTimer h t st = st"
  by (simp add: fireTimer_def)

text \<open>
  C3. The claim: a duplicate arriving more than 1500 ms after the previous message of
  its type is not suppressed and is added to the visible items. The run below refutes
  it. \<open>notifyError('Saved')\<close> is called at 1000000 and again at 1002000. The second
  call is outside the window, so \<open>shouldSkip\<close> returns false and \<open>store.show\<close> is
  called; but the first notice is still visible (its timer is due at 1006000 and cannot
  have run), the store's own test finds it, and the store stays as it was, with one item.
\<close>

theorem duplicate_after_window_not_shown:
  "lastType (fst afterFirstPush) = Some Error
   \<and> lastMessage (fst afterFirstPush) = trim savedText
   \<and> 1002000 - lastAt (fst afterFirstPush) > dedupeWindowMs
   \<and> items (fst (snd afterFirstPush)) = [\<lparr>id' = 1, message = savedText, type' = Error\<rparr>]
   \<and> fireTimer 1 1002000 (fst (snd afterFirstPush)) = fst (snd afterFirstPush)
   \<and> snd (notifyError toLowerCaseASCII untranslated (Some savedText) 1002000
             (fst afterFirstPush, fst (snd afterFirstPush)))
       = (fst (snd afterFirstPush), Some (savedText, Error))"
  by (simp add: afterFirstPush_eq trim_savedText dedupeWindowMs_def fireTimer_def
      notifyError_def pushNotice_def shouldSkip_def Let_def savedText_not_empty
      simplifyMessage_savedText show'_def hasSimilarVisibleNotice_def normalisers_agree
      startsWith_def)

text \<open>
  C3, amended. A message with non-empty trimmed text submitted through
  \<open>notifyError\<close>, \<open>notifySuccess\<close> or \<open>notifyInfo\<close> strictly more than 1500 ms
  after the previous message is not suppressed by the window: \<open>shouldSkip\<close> returns
  false and \<open>store.show\<close> is called with it. \<open>store.show\<close> adds it to the visible
  items unless a visible notice of its type is similar to it; then the store stays as
  it was.
\<close>

theorem outside_window_reaches_store:
  assumes "trim m \<noteq> []" and "now - lastAt d > dedupeWindowMs"
    and "(notify = notifyError \<and> ty = Error) \<or> (notify = notifySuccess \<and> ty = Success)
         \<or> (notify = notifyInfo \<and> ty = Info)"
  shows "\<not> fst (shouldSkip lower ty m now d)
       \<and> snd (notify lower t (Some m) now (d, st))
           = (snd (show' lower m ty defaultDuration now st), Some (m, ty))
       \<and> (similarVisible_spec lower ty m st \<longrightarrow>
            snd (show' lower m ty defaultDuration now st) = st)
       \<and> (\<not> similarVisible_spec lower ty m st \<and> idsFresh st \<longrightarrow>
            items (snd (show' lower m ty defaultDuration now st)) \<noteq> []
            \<and> last (items (snd (show' lower m ty defaultDuration now st)))
                = \<lparr>id' = Suc (sequence st), message = trim m, type' = ty\<rparr>)"
proof -
  have out: "\<not> fst (shouldSkip lower ty m now d)"
    by (rule shouldSkip_outside) (use assms(2) in \<open>simp add: dedupeWindowMs_def\<close>)
  have "snd (pushNotice lower t (Some m) ty key now (d, st))
           = (snd (show' lower m ty defaultDuration now st), Some (m, ty))" for key
    by (simp add: pushNotice_passed [OF assms(1) out])
  then have call: "snd (notify lower t (Some m) now (d, st))
           = (snd (show' lower m ty defaultDuration now st), Some (m, ty))"
    using assms(3) by (auto simp: notifyError_def notifySuccess_def notifyInfo_def)
  have sup: "similarVisible_spec lower ty m st \<longrightarrow>
            snd (show' lower m ty defaultDuration now st) = st"
    using show_suppressed [of m lower ty st defaultDuration now]
    by (simp add: hasSimilar_spec)
  have app: "\<not> similarVisible_spec lower ty m st \<and> idsFresh st \<longrightarrow>
            items (snd (show' lower m ty defaultDuration now st)) \<noteq> []
            \<and> last (items (snd (show' lower m ty defaultDuration now st)))
                = \<lparr>id' = Suc (sequence st), message = trim m, type' = ty\<rparr>"
    using show_appends(2,3) [OF assms(1), of lower ty st defaultDuration now]
    by (simp add: hasSimilar_spec)
  from out call sup app show ?thesis by blast
qed


lemma afterTimer_eq:
  "afterTimer =
     \<lparr>items = [], timerMap = Map.empty, sequence = 1, activeTimers = Map.empty,
      nextHandle = 2\<rparr>"
  by (simp add: afterTimer_def afterFirstPush_eq fireTimer_def remove_def clearTimeout_def)

lemma similar_saved_afterFirstPush:
  "similarVisible_spec toLowerCaseASCII Error savedText (fst (snd afterFirstPush))"
  by (simp add: similarVisible_spec_def afterFirstPush_eq normalisers_agree
      simplifyMessage_savedText)

theorem outside_window_reaches_store_witness:
  "trim savedText \<noteq> []
   \<and> 1002000 - lastAt (fst afterFirstPush) > dedupeWindowMs
   \<and> similarVisible_spec toLowerCaseASCII Error savedText (fst (snd afterFirstPush))
   \<and> \<not> fst (shouldSkip toLowerCaseASCII Error savedText 1002000 (fst afterFirstPush))
   \<and> snd (notifyError toLowerCaseASCII untranslated (Some savedText) 1002000
             (fst afterFirstPush, fst (snd afterFirstPush)))
       = (fst (snd afterFirstPush), Some (savedText, Error))
   \<and> 1007000 - lastAt (fst afterFirstPush) > dedupeWindowMs
   \<and> \<not> similarVisible_spec toLowerCaseASCII Error savedText afterTimer
   \<and> idsFresh afterTimer
   \<and> items (fst (snd (notifyError toLowerCaseASCII untranslated (Some savedText) 1007000
                         (fst afterFirstPush, afterTimer))))
       = [\<lparr>id' = 2, message = savedText, type' = Error\<rparr>]"
proof -
  let ?d = "fst afterFirstPush" and ?st = "fst (snd afterFirstPush)"
  have h1: "trim savedText \<noteq> []"
    by (simp add: trim_savedText savedText_not_empty)
  have h2: "1002000 - lastAt ?d > dedupeWindowMs" and h3: "1007000 - lastAt ?d > dedupeWindowMs"
    by (simp_all add: afterFirstPush_eq dedupeWindowMs_def)
  have h4: "(notifyError = notifyError \<and> Error = Error)
      \<or> (notifyError = notifySuccess \<and> Error = Success)
      \<or> (notifyError = notifyInfo \<and> Error = Info)"
    by simp
  have h5: "\<not> similarVisible_spec toLowerCaseASCII Error savedText afterTimer"
    by (simp add: similarVisible_spec_def afterTimer_eq)
  have h6: "idsFresh afterTimer"
    by (simp add: idsFresh_def afterTimer_eq)
  note a = outside_window_reaches_store [OF h1 h2 h4, of toLowerCaseASCII untranslated ?st]
  note b = outside_window_reaches_store [OF h1 h3 h4, of toLowerCaseASCII untranslated
      afterTimer]
  have c1: "\<not> fst (shouldSkip toLowerCaseASCII Error savedText 1002000 ?d)"
    using a by blast
  have c2: "snd (notifyError toLowerCaseASCII untranslated (Some savedText) 1002000 (?d, ?st))
      = (?st, Some (savedText, Error))"
    using a similar_saved_afterFirstPush by simp
  let ?r = "snd (show' toLowerCaseASCII savedText Error defaultDuration 1007000 afterTimer)"
  have c3: "fst (snd (notifyError toLowerCaseASCII untranslated (Some savedText) 1007000
                         (?d, afterTimer))) = ?r"
    using b by simp
  have c4: "items ?r \<noteq> [] \<and> last (items ?r)
      = \<lparr>id' = Suc (sequence afterTimer), message = trim savedText, type' = Error\<rparr>"
    using b h5 h6 by blast
  have "length (items ?r) \<le> 1"
    using h5 hasSimilar_spec [of toLowerCaseASCII Error savedText afterTimer]
    by (simp add: show'_def Let_def trim_savedText savedText_not_empty afterTimer_eq
        setTimeout_def defaultDuration_def removeOverflow_def)
  then have "items ?r = [last (items ?r)]"
    using c4 by (cases "items ?r") auto
  then have c5: "items ?r = [\<lparr>id' = 2, message = savedText, type' = Error\<rparr>]"
    using c4 by (simp add: afterTimer_eq trim_savedText)
  show ?thesis
    using h1 h2 h3 h5 h6 c1 c2 c3 c5 similar_saved_afterFirstPush by simp
qed

section \<open>The normaliser\<close>

lemma matchLiteral_Some:
  "matchLiteral p v = Some r \<longleftrightarrow>
     length p \<le> length v \<and> map canonicalize (take (length p) v) = map canonicalize p
     \<and> r = drop (length p) v"
  by (induction p v rule: matchLiteral.induct) auto

lemma matchAlternatives_step:
  "matchAlternatives (p # ps) v =
     (if hasFailureHead p v
      then Some (dropWhile isWhiteSpace (tl (dropWhile isWhiteSpace (drop (length p) v))))
      else matchAlternatives ps v)"
proof (cases "matchLiteral p v")
  case None
  then have "\<not> (length p \<le> length v
      \<and> map canonicalize (take (length p) v) = map canonicalize p)"
    using matchLiteral_Some [of p v "drop (length p) v"] by auto
  then have "\<not> hasFailureHead p v" by (auto simp: hasFailureHead_def)
  with None show ?thesis by simp
next
  case (Some r)
  then have r: "length p \<le> length v"
    "map canonicalize (take (length p) v) = map canonicalize p" "r = drop (length p) v"
    using matchLiteral_Some [of p v r] by auto
  define d where "d = dropWhile isWhiteSpace (drop (length p) v)"
  have h: "hasFailureHead p v = (case d of [] \<Rightarrow> False | c # _ \<Rightarrow> isSeparator c)"
    using r by (simp add: hasFailureHead_def d_def)
  have m: "matchSeparator r =
      (case d of [] \<Rightarrow> None
       | c # cs \<Rightarrow> if isSeparator c then Some (dropWhile isWhiteSpace cs) else None)"
    using r by (simp add: matchSeparator_def d_def)
  have "matchAlternatives (p # ps) v =
     (if hasFailureHead p v then Some (dropWhile isWhiteSpace (tl d))
      else matchAlternatives ps v)"
    unfolding h using Some m by (cases d) simp_all
  then show ?thesis by (simp only: d_def)
qed

lemma matchAlternatives_find:
  "matchAlternatives ps v =
     map_option (\<lambda>p. dropWhile isWhiteSpace (tl (dropWhile isWhiteSpace (drop (length p) v))))
       (find (\<lambda>p. hasFailureHead p v) ps)"
proof (induction ps)
  case Nil
  then show ?case by simp
next
  case (Cons p ps)
  then show ?case by (simp only: matchAlternatives_step) simp
qed

lemma replaceFailurePrefix_spec:
  "replaceFailurePrefix ps v = removeFailurePrefix_spec ps v"
  by (simp add: replaceFailurePrefix_def removeFailurePrefix_spec_def matchAlternatives_find
      split: option.splits)

lemma deleteClass_removable: "deleteClass punctuation_notify v = filter (\<lambda>c. \<not> removable c) v"
  by (simp add: deleteClass_def inClass_def removable_def)

lemma simplifyMessage_is_spec: "simplifyMessage lower s = simplifyMessage_spec lower s"
  by (simp add: simplifyMessage_def simplifyMessage_spec_def Let_def
      replaceFailurePrefix_spec deleteClass_removable)

text \<open>On ASCII text lower-casing keeps apart what is deleted and what is kept.\<close>

lemma upper_not_removable:
  assumes "0x41 \<le> c" and "c \<le> (0x5A :: 16 word)"
  shows "\<not> removable c" and "\<not> removable (c + 0x20)"
proof -
  have u: "65 \<le> unat c" "unat c \<le> 90"
    using assms by (simp_all add: word_le_nat_alt)
  then have v: "unat (c + 0x20) = unat c + 32"
    by (simp add: unat_word_ariths)
  have "unat k < 65 \<or> 90 < unat k" if "removable k" for k :: "16 word"
    using that
    by (auto simp: removable_def isWhiteSpace_def whiteSpaceUnits_def punctuation_notify_def)
  with u show "\<not> removable c" by fastforce
  have "unat k < 97 \<or> 122 < unat k" if "removable k" for k :: "16 word"
    using that
    by (auto simp: removable_def isWhiteSpace_def whiteSpaceUnits_def punctuation_notify_def)
  with u v show "\<not> removable (c + 0x20)" by fastforce
qed

lemma toLowerCaseASCII_keeps_removable:
  "list_all removable (toLowerCaseASCII v) = list_all removable v"
  by (induction v) (auto simp: toLowerCaseASCII_def upper_not_removable)

text \<open>
  C4. \<open>simplifyMessage(s)\<close> is: trim \<open>s\<close>; if nothing is left the result is empty;
  otherwise cut off one leading failure phrase followed by a colon or dash separator,
  ignoring the letter case of the phrase; lower-case; delete every white-space and
  every listed punctuation code unit. Hence the result is empty exactly when \<open>s\<close>
  trims to empty or when, after the prefix is cut off and the rest lower-cased, only
  removable code units are left. The built-in \<open>toLowerCase\<close> maps letters to letters
  and leaves everything else alone, so the lower-cased text consists of removable code
  units exactly when the text does; where that holds, the result is empty exactly when
  \<open>s\<close> trims to empty or consists of removable code units after the prefix is cut off.
\<close>

theorem simplifyMessage_normalises:
  "simplifyMessage lower s = simplifyMessage_spec lower s
   \<and> (simplifyMessage lower s = []) =
       (trim s = []
        \<or> list_all removable
             (lower (removeFailurePrefix_spec failurePrefixes_notify (trim s))))
   \<and> (list_all removable (lower (removeFailurePrefix_spec failurePrefixes_notify (trim s)))
        = list_all removable (removeFailurePrefix_spec failurePrefixes_notify (trim s))
      \<longrightarrow> (simplifyMessage lower s = []) =
            (trim s = []
             \<or> list_all removable (removeFailurePrefix_spec failurePrefixes_notify (trim s))))"
proof (intro conjI impI)
  show "simplifyMessage lower s = simplifyMessage_spec lower s"
    by (rule simplifyMessage_is_spec)
next
  let ?v = "removeFailurePrefix_spec failurePrefixes_notify (trim s)"
  have e: "(filter (\<lambda>c. \<not> removable c) (lower ?v) = []) = list_all removable (lower ?v)"
    by (simp add: filter_empty_conv list_all_iff)
  then show l: "(simplifyMessage lower s = []) = (trim s = [] \<or> list_all removable (lower ?v))"
    by (simp add: simplifyMessage_is_spec simplifyMessage_spec_def)
  assume keep: "list_all removable (lower ?v) = list_all removable ?v"
  with l show "(simplifyMessage lower s = []) = (trim s = [] \<or> list_all removable ?v)"
    by simp
qed

lemma trim_failedDiskText: "trim failedDiskText = tl failedDiskText"
  by (simp add: string_defs failedDiskText_def)

lemma removeFailurePrefix_failedDiskText:
  "removeFailurePrefix_spec failurePrefixes_notify (trim failedDiskText)
     = [0x4E, 0x6F, 0x2C, 0x20, 0x64, 0x69, 0x73, 0x6B, 0x21]"
  unfolding replaceFailurePrefix_spec [symmetric]
  by (simp add: string_defs failurePrefixes_notify_def failedDiskText_def)

lemma removeFailurePrefix_failedDotsText:
  "removeFailurePrefix_spec failurePrefixes_notify (trim failedDotsText) = [0x2E, 0x2E, 0x2E]"
  unfolding replaceFailurePrefix_spec [symmetric]
  by (simp add: string_defs failurePrefixes_notify_def failedDotsText_def)

theorem simplifyMessage_normalises_witness:
  "list_all removable (toLowerCaseASCII
       (removeFailurePrefix_spec failurePrefixes_notify (trim failedDotsText)))
     = list_all removable (removeFailurePrefix_spec failurePrefixes_notify (trim failedDotsText))
   \<and> list_all removable (removeFailurePrefix_spec failurePrefixes_notify (trim failedDotsText))
   \<and> simplifyMessage toLowerCaseASCII failedDotsText = []
   \<and> list_all removable (toLowerCaseASCII
       (removeFailurePrefix_spec failurePrefixes_notify (trim failedDiskText)))
     = list_all removable (removeFailurePrefix_spec failurePrefixes_notify (trim failedDiskText))
   \<and> \<not> list_all removable (removeFailurePrefix_spec failurePrefixes_notify (trim failedDiskText))
   \<and> trim failedDiskText \<noteq> []
   \<and> simplifyMessage toLowerCaseASCII failedDiskText \<noteq> []
   \<and> simplifyMessage_spec toLowerCaseASCII failedDiskText
       = [0x6E, 0x6F, 0x64, 0x69, 0x73, 0x6B]"
proof -
  have r: "list_all removable [0x2E, 0x2E, 0x2E]"
    "list_all removable (toLowerCaseASCII [0x2E, 0x2E, 0x2E])"
    "\<not> list_all removable [0x4E, 0x6F, 0x2C, 0x20, 0x64, 0x69, 0x73, 0x6B, 0x21]"
    "\<not> list_all removable
         (toLowerCaseASCII [0x4E, 0x6F, 0x2C, 0x20, 0x64, 0x69, 0x73, 0x6B, 0x21])"
    by (simp_all add: removable_def string_defs punctuation_notify_def)
  have h1: "list_all removable (toLowerCaseASCII
       (removeFailurePrefix_spec failurePrefixes_notify (trim failedDotsText)))
     = list_all removable (removeFailurePrefix_spec failurePrefixes_notify (trim failedDotsText))"
    unfolding removeFailurePrefix_failedDotsText using r by simp
  have h2: "list_all removable (toLowerCaseASCII
       (removeFailurePrefix_spec failurePrefixes_notify (trim failedDiskText)))
     = list_all removable (removeFailurePrefix_spec failurePrefixes_notify (trim failedDiskText))"
    unfolding removeFailurePrefix_failedDiskText using r by simp
  have a1: "list_all removable
      (removeFailurePrefix_spec failurePrefixes_notify (trim failedDotsText))"
    unfolding removeFailurePrefix_failedDotsText using r by simp
  have a2: "\<not> list_all removable
      (removeFailurePrefix_spec failurePrefixes_notify (trim failedDiskText))"
    unfolding removeFailurePrefix_failedDiskText using r by simp
  have a3: "trim failedDiskText \<noteq> []"
    unfolding trim_failedDiskText by (simp add: failedDiskText_def)
  note n1 = simplifyMessage_normalises [of toLowerCaseASCII failedDotsText]
  note n2 = simplifyMessage_normalises [of toLowerCaseASCII failedDiskText]
  have c1: "simplifyMessage toLowerCaseASCII failedDotsText = []"
    using n1 h1 a1 by blast
  have c2: "simplifyMessage toLowerCaseASCII failedDiskText \<noteq> []"
    using n2 h2 a2 a3 by blast
  have c3: "simplifyMessage_spec toLowerCaseASCII failedDiskText
       = [0x6E, 0x6F, 0x64, 0x69, 0x73, 0x6B]"
    using n2 by (simp add: string_defs normaliser_defs failedDiskText_def)
  show ?thesis
    using h1 h2 a1 a2 a3 c1 c2 c3 by blast
qed

text \<open>
  C10. The copy of the normaliser in the notice store and the one in
  \<open>utils/notify.ts\<close> return the same result for every string: the same phrases are cut
  off, the same code units deleted. So the store's test for a visible notice of the
  same type is the test the window applies to the cores of the last and the new
  message: both non-empty, and one including the other.
\<close>

theorem two_normalisers_agree:
  "simplifyMessage lower s = simplifyNoticeMessage lower s
   \<and> failurePrefixes_notify = failurePrefixes_notice
   \<and> punctuation_notify = punctuation_notice
   \<and> hasSimilarVisibleNotice lower ty m2 (st\<lparr>items := [\<lparr>id' = i, message = m1, type' = ty\<rparr>]\<rparr>)
       = (simplifyMessage lower m2 \<noteq> [] \<and> simplifyMessage lower m1 \<noteq> []
          \<and> (includes' (simplifyMessage lower m2) (simplifyMessage lower m1)
              \<or> includes' (simplifyMessage lower m1) (simplifyMessage lower m2)))"
proof (intro conjI)
  show "hasSimilarVisibleNotice lower ty m2 (st\<lparr>items := [\<lparr>id' = i, message = m1, type' = ty\<rparr>]\<rparr>)
       = (simplifyMessage lower m2 \<noteq> [] \<and> simplifyMessage lower m1 \<noteq> []
          \<and> (includes' (simplifyMessage lower m2) (simplifyMessage lower m1)
              \<or> includes' (simplifyMessage lower m1) (simplifyMessage lower m2)))"
    using includes_self [of "simplifyMessage lower m1"]
    by (auto simp: hasSimilarVisibleNotice_def Let_def normalisers_agree)
qed (simp_all add: normalisers_agree tables_agree)

section \<open>Pagination\<close>

lemma jumpToPage_finite:
  assumes "page pg = Finite P" and "total_page pg = Finite T"
  shows "jumpToPage_Coupons N pg input = map_option Finite (jumpToPage_spec N P T input)"
proof (cases "input = []")
  case True
  then show ?thesis by (simp add: jumpToPage_Coupons_def jumpToPage_spec_def)
next
  case False
  show ?thesis
  proof (cases "N input")
    case NaN
    with False show ?thesis
      by (simp add: jumpToPage_Coupons_def jumpToPage_spec_def isNaN_def)
  next
    case NegInfinity
    have "Math_min (Math_max (Math_floor NegInfinity) (Finite 1)) (Finite T)
        = Finite (if T < 1 then T else 1)"
      by (simp add: Math_min_def Math_max_def Math_floor_def)
    with False NegInfinity assms show ?thesis
      by (auto simp: jumpToPage_Coupons_def jumpToPage_spec_def isNaN_def Let_def
          strictEquals_def changePage_Coupons_def changePage_spec_def js_gt_def)
  next
    case (Finite q)
    define f :: rat where "f = of_int \<lfloor>q\<rfloor>"
    have fl: "Math_floor (Finite q) = Finite f"
      by (simp add: Math_floor_def f_def)
    have t: "Math_min (Math_max (Math_floor (Finite q)) (Finite 1)) (Finite T)
        = Finite (if T < max f 1 then T else max f 1)"
      unfolding fl by (simp add: Math_min_def Math_max_def max_def)
    have c: "map_option Finite (jumpToPage_spec N P T input)
        = map_option Finite (let target = clamp_spec 1 T f in
            if target = P then None else changePage_spec T target)"
      using False Finite by (simp add: jumpToPage_spec_def f_def)
    have j: "jumpToPage_Coupons N pg input
        = (let target = Finite (if T < max f 1 then T else max f 1) in
           if strictEquals target (Finite P) then None else changePage_Coupons pg target)"
      using False Finite assms t by (simp add: jumpToPage_Coupons_def isNaN_def)
    show ?thesis
      unfolding c j using assms(2)
      by (auto simp: Let_def strictEquals_def changePage_Coupons_def changePage_spec_def
          js_gt_def clamp_spec_def max_def)
  next
    case PosInfinity
    have "Math_min (Math_max (Math_floor PosInfinity) (Finite 1)) (Finite T) = Finite T"
      by (simp add: Math_min_def Math_max_def Math_floor_def)
    with False PosInfinity assms show ?thesis
      by (auto simp: jumpToPage_Coupons_def jumpToPage_spec_def isNaN_def Let_def
          strictEquals_def changePage_Coupons_def changePage_spec_def js_gt_def)
  qed
qed

text \<open>
  C7. \<open>jumpToPage\<close> and \<open>changePage\<close> of \<open>Coupons.vue\<close> and of
  \<open>UserLoginLogs.vue\<close> fetch the same page, or both none, for every page state and
  every input. \<open>jumpToPage\<close> does nothing on empty or \<open>NaN\<close> input; a page it
  fetches is the floor of the number clamped by 1 and the number of pages, differs from
  the current page and is not rejected by \<open>changePage\<close>; on a page state of finite
  numbers it is the jump of the specification. \<open>changePage\<close> fetches nothing for a
  page below 1 or above the number of pages.
\<close>

theorem pagination_same_in_both_views:
  "jumpToPage_Coupons N pg input = jumpToPage_UserLoginLogs N pg input
   \<and> changePage_Coupons pg p = changePage_UserLoginLogs pg p
   \<and> (input = [] \<or> N input = NaN \<longrightarrow> jumpToPage_Coupons N pg input = None)
   \<and> (jumpToPage_Coupons N pg input = Some r \<longrightarrow>
        r = Math_min (Math_max (Math_floor (N input)) (Finite 1)) (total_page pg)
        \<and> \<not> strictEquals r (page pg) \<and> \<not> js_lt r (Finite 1) \<and> \<not> js_gt r (total_page pg))
   \<and> (page pg = Finite P \<and> total_page pg = Finite T \<longrightarrow>
        jumpToPage_Coupons N pg input = map_option Finite (jumpToPage_spec N P T input))
   \<and> (js_lt p (Finite 1) \<or> js_gt p (total_page pg) \<longrightarrow> changePage_Coupons pg p = None)"
proof (intro conjI impI)
  show "changePage_Coupons pg p = changePage_UserLoginLogs pg p"
    by (simp add: changePage_Coupons_def changePage_UserLoginLogs_def)
  then show "jumpToPage_Coupons N pg input = jumpToPage_UserLoginLogs N pg input"
    by (simp add: jumpToPage_Coupons_def jumpToPage_UserLoginLogs_def Let_def
        changePage_Coupons_def changePage_UserLoginLogs_def)
  show "jumpToPage_Coupons N pg input = None" if "input = [] \<or> N input = NaN"
    using that by (auto simp: jumpToPage_Coupons_def isNaN_def)
  show "r = Math_min (Math_max (Math_floor (N input)) (Finite 1)) (total_page pg)"
    "\<not> strictEquals r (page pg)" "\<not> js_lt r (Finite 1)" "\<not> js_gt r (total_page pg)"
    if "jumpToPage_Coupons N pg input = Some r"
    using that
    by (auto simp: jumpToPage_Coupons_def changePage_Coupons_def Let_def split: if_splits)
  show "jumpToPage_Coupons N pg input = map_option Finite (jumpToPage_spec N P T input)"
    if "page pg = Finite P \<and> total_page pg = Finite T"
    using that jumpToPage_finite [of pg P T N input] by blast
  show "changePage_Coupons pg p = None" if "js_lt p (Finite 1) \<or> js_gt p (total_page pg)"
    using that by (auto simp: changePage_Coupons_def)
qed

lemma NumberOfDigits_runs:
  "NumberOfDigits [0x39] = Finite 9" "NumberOfDigits [0x32] = Finite 2"
  "NumberOfDigits [0x78] = NaN"
  by (simp_all add: NumberOfDigits_def)

theorem pagination_same_in_both_views_witness:
  "NumberOfDigits [0x78] = NaN
   \<and> jumpToPage_Coupons NumberOfDigits pageTwoOfFive [0x78] = None
   \<and> jumpToPage_Coupons NumberOfDigits pageTwoOfFive [0x39] = Some (Finite 5)
   \<and> jumpToPage_UserLoginLogs NumberOfDigits pageTwoOfFive [0x39] = Some (Finite 5)
   \<and> Finite 5 = Math_min (Math_max (Math_floor (NumberOfDigits [0x39])) (Finite 1))
                   (total_page pageTwoOfFive)
   \<and> page pageTwoOfFive = Finite 2 \<and> total_page pageTwoOfFive = Finite 5
   \<and> jumpToPage_spec NumberOfDigits 2 5 [0x39] = Some 5
   \<and> js_gt (Finite 6) (total_page pageTwoOfFive)
   \<and> changePage_Coupons pageTwoOfFive (Finite 6) = None
   \<and> changePage_UserLoginLogs pageTwoOfFive (Finite 6) = None"
proof -
  have h1: "[0x78] = [] \<or> NumberOfDigits [0x78] = NaN"
    by (simp add: NumberOfDigits_runs)
  have h2: "page pageTwoOfFive = Finite 2 \<and> total_page pageTwoOfFive = Finite 5"
    by (simp add: pageTwoOfFive_def)
  have h3: "js_lt (Finite 6) (Finite 1) \<or> js_gt (Finite 6) (total_page pageTwoOfFive)"
    by (simp add: pageTwoOfFive_def js_gt_def)
  have s: "jumpToPage_spec NumberOfDigits 2 5 [0x39] = Some 5"
    by (simp add: jumpToPage_spec_def NumberOfDigits_runs clamp_spec_def changePage_spec_def)
  note a = pagination_same_in_both_views [of NumberOfDigits pageTwoOfFive "[0x78]"
      "Finite 6" "Finite 5" 2 5]
  note b = pagination_same_in_both_views [of NumberOfDigits pageTwoOfFive "[0x39]"
      "Finite 6" "Finite 5" 2 5]
  have c1: "jumpToPage_Coupons NumberOfDigits pageTwoOfFive [0x78] = None"
    using a h1 by blast
  have "jumpToPage_Coupons NumberOfDigits pageTwoOfFive [0x39]
      = map_option Finite (jumpToPage_spec NumberOfDigits 2 5 [0x39])"
    using b h2 by blast
  then have c2: "jumpToPage_Coupons NumberOfDigits pageTwoOfFive [0x39] = Some (Finite 5)"
    by (simp add: s)
  have e: "jumpToPage_Coupons NumberOfDigits pageTwoOfFive [0x39]
      = jumpToPage_UserLoginLogs NumberOfDigits pageTwoOfFive [0x39]"
    "changePage_Coupons pageTwoOfFive (Finite 6)
      = changePage_UserLoginLogs pageTwoOfFive (Finite 6)"
    using b by blast+
  have c3: "jumpToPage_UserLoginLogs NumberOfDigits pageTwoOfFive [0x39] = Some (Finite 5)"
    using e c2 by simp
  have c4: "Finite 5 = Math_min (Math_max (Math_floor (NumberOfDigits [0x39])) (Finite 1))
                   (total_page pageTwoOfFive)"
    using b c2 by blast
  have c5: "changePage_Coupons pageTwoOfFive (Finite 6) = None"
    using b h3 by blast
  have c6: "changePage_UserLoginLogs pageTwoOfFive (Finite 6) = None"
    using e c5 by simp
  have h4: "js_gt (Finite 6) (total_page pageTwoOfFive)"
    by (simp add: pageTwoOfFive_def js_gt_def)
  show ?thesis
    using h1 h2 h4 s c1 c2 c3 c4 c5 c6 by simp
qed

section \<open>Handlers, joint requests and timers across the program\<close>




























end
